(* ===== verification/C_Prelude.thy ===== *)
theory C_Prelude
  imports Main "HOL-Library.Word"
begin

text \<open>
  The shared prelude of the development: names for C's fixed-width integers, the kinds of
  undefined behaviour a C expression can have, the observable effects a program leaves on its
  standard streams and descriptors, and the part of the C library the programs use on characters,
  strings and numbers (character classes of the C locale, \<open>strtol\<close>/\<open>atoi\<close>, \<open>strcmp\<close>-style
  comparison, \<open>strncpy\<close>, \<open>printf\<close>'s integer conversions).  Bytes are \<open>8 word\<close>; C text is a
  \<open>string\<close> (HOL's \<open>char\<close> is a byte).
\<close>

unbundle bit_operations_syntax

type_synonym u8 = "8 word"
type_synonym u16 = "16 word"
type_synonym u32 = "32 word"
type_synonym u64 = "64 word"

named_theorems ctype_defs \<open>definitions of the character classes\<close>
named_theorems wf_intros \<open>introduction rules of the components' invariants\<close>

subsection \<open>Undefined behaviour and observable effects\<close>

text \<open>
  An operation that C leaves undefined is a value of type \<open>ub\<close>; a fallible computation is
  \<open>ub + 'a\<close> with \<open>Inl\<close> for the undefined behaviour.
\<close>

datatype ub =
    OutOfBounds       \<comment> \<open>an access outside the object\<close>
  | UseAfterFree      \<comment> \<open>a use of an object that has been freed\<close>
  | UninitRead        \<comment> \<open>a read of an indeterminate value\<close>
  | SignedOverflow    \<comment> \<open>overflow of a signed integer\<close>
  | NullPointer       \<comment> \<open>a null pointer handed to a function that needs an object\<close>
  | BadVlaSize        \<comment> \<open>a variable length array type whose size is not positive\<close>

type_synonym 'a cres = "ub + 'a"

text \<open>What a program does on its standard streams, in program order.\<close>

datatype io =
    Out string        \<comment> \<open>text written to the standard output\<close>
  | Err string        \<comment> \<open>text written to the standard error\<close>
  | Perror string     \<comment> \<open>\<open>perror(s)\<close>: the prefix, the system's message is not modelled\<close>

fun out_text :: "io list \<Rightarrow> string" where
  "out_text [] = []"
| "out_text (Out s # es) = s @ out_text es"
| "out_text (e # es) = out_text es"

lemma out_text_append [simp]: "out_text (xs @ ys) = out_text xs @ out_text ys"
  by (induction xs rule: out_text.induct) auto

text \<open>
  How a C function ends: it returns a value, it calls \<open>exit\<close> (after printing the given messages), it
  runs into undefined behaviour, or it waits forever for an event that does not come.
\<close>

datatype 'a outcome = Returns 'a | Exits "io list" int | Undefined ub | Blocks

fun obind :: "'a outcome \<Rightarrow> ('a \<Rightarrow> 'b outcome) \<Rightarrow> 'b outcome" where
  "obind (Returns x) f = f x"
| "obind (Exits es n) f = Exits es n"
| "obind (Undefined u) f = Undefined u"
| "obind Blocks f = Blocks"

lemma obind_Returns_iff: "obind m f = Returns y \<longleftrightarrow> (\<exists>x. m = Returns x \<and> f x = Returns y)"
  by (cases m) auto

definition INT_MAX :: int where "INT_MAX = 2147483647"

text \<open>Conversions between the integer types.\<close>

definition to_int32 :: "int \<Rightarrow> int" where
  "to_int32 i = sint (word_of_int i :: u32)"

definition to_uint :: "int \<Rightarrow> u32" where
  "to_uint i = word_of_int i"

lemma to_int32_id: "- 2147483648 \<le> i \<Longrightarrow> i \<le> 2147483647 \<Longrightarrow> to_int32 i = i"
  by (simp add: to_int32_def signed_of_int signed_take_bit_int_eq_self)

lemma to_int32_bounds: "- 2147483648 \<le> to_int32 i \<and> to_int32 i \<le> 2147483647"
proof -
  have "- (2 ^ 31) \<le> to_int32 i" and "to_int32 i < 2 ^ 31"
    unfolding to_int32_def
    using sint_ge [of "word_of_int i :: u32"] sint_lt [of "word_of_int i :: u32"] by simp_all
  then show ?thesis by simp
qed

subsection \<open>Character classes of the C locale\<close>

abbreviation ord :: "char \<Rightarrow> nat" where "ord c \<equiv> of_char c"

abbreviation NUL :: char where "NUL \<equiv> CHR 0x00"
abbreviation NL :: char where "NL \<equiv> CHR 0x0A"
abbreviation SP :: char where "SP \<equiv> CHR 0x20"

definition isprint :: "char \<Rightarrow> bool" where
  [ctype_defs]: "isprint c \<longleftrightarrow> 32 \<le> ord c \<and> ord c \<le> 126"

definition isdigit :: "char \<Rightarrow> bool" where
  [ctype_defs]: "isdigit c \<longleftrightarrow> 48 \<le> ord c \<and> ord c \<le> 57"

definition isupper :: "char \<Rightarrow> bool" where
  [ctype_defs]: "isupper c \<longleftrightarrow> 65 \<le> ord c \<and> ord c \<le> 90"

definition islower :: "char \<Rightarrow> bool" where
  [ctype_defs]: "islower c \<longleftrightarrow> 97 \<le> ord c \<and> ord c \<le> 122"

definition isalpha :: "char \<Rightarrow> bool" where
  [ctype_defs]: "isalpha c \<longleftrightarrow> isupper c \<or> islower c"

definition isblank :: "char \<Rightarrow> bool" where
  [ctype_defs]: "isblank c \<longleftrightarrow> ord c = 32 \<or> ord c = 9"

definition isspace :: "char \<Rightarrow> bool" where
  [ctype_defs]: "isspace c \<longleftrightarrow> ord c = 32 \<or> (9 \<le> ord c \<and> ord c \<le> 13)"

definition tolower :: "char \<Rightarrow> char" where
  [ctype_defs]: "tolower c = (if isupper c then char_of (ord c + 32) else c)"

definition strcasecmp_eq :: "string \<Rightarrow> string \<Rightarrow> bool" where
  "strcasecmp_eq s t \<longleftrightarrow> map tolower s = map tolower t"

text \<open>Bytes as characters and back.\<close>

definition char_of_byte :: "u8 \<Rightarrow> char" where
  "char_of_byte b = char_of (unat b)"

definition byte_of_char :: "char \<Rightarrow> u8" where
  "byte_of_char c = of_nat (ord c)"

abbreviation bytes_of :: "string \<Rightarrow> u8 list" where "bytes_of s \<equiv> map byte_of_char s"
abbreviation text_of :: "u8 list \<Rightarrow> string" where "text_of bs \<equiv> map char_of_byte bs"

lemma ord_char_of [simp]: "n < 256 \<Longrightarrow> ord (char_of n) = n"
  by simp

lemma unat_u8_less [simp]: "unat (b :: u8) < 256"
  using unsigned_less [of b, where ?'a = nat] by simp

lemma unat_byte_of_char [simp]: "unat (byte_of_char c) = ord c"
  by (simp add: byte_of_char_def unat_of_nat)

lemma ord_char_of_byte [simp]: "ord (char_of_byte b) = unat b"
  by (simp add: char_of_byte_def)

lemma byte_of_char_of_byte [simp]: "byte_of_char (char_of_byte b) = b"
  by (simp add: byte_of_char_def)

lemma char_of_byte_of_char [simp]: "char_of_byte (byte_of_char c) = c"
  by (simp add: char_of_byte_def)

lemma bytes_of_text_of [simp]: "bytes_of (text_of bs) = bs"
  by (simp add: comp_def map_idI)

lemma text_of_bytes_of [simp]: "text_of (bytes_of s) = s"
  by (simp add: comp_def map_idI)

subsection \<open>C strings\<close>

text \<open>The string a buffer holds: everything before the first NUL.\<close>

definition cstr :: "string \<Rightarrow> string" where
  "cstr buf = takeWhile (\<lambda>c. c \<noteq> NUL) buf"

lemma cstr_append_NUL [simp]: "NUL \<notin> set s \<Longrightarrow> cstr (s @ NUL # rest) = s"
  by (induction s) (auto simp: cstr_def)

lemma cstr_id: "NUL \<notin> set s \<Longrightarrow> cstr s = s"
  by (auto simp: cstr_def)

lemma NUL_notin_cstr [simp]: "NUL \<notin> set (cstr s)"
  by (auto simp: cstr_def dest: set_takeWhileD)

text \<open>\<open>strncpy(dst, src, n)\<close> writes \<open>n\<close> bytes: the string cut at \<open>n\<close>, padded with NULs.\<close>

definition strncpy :: "string \<Rightarrow> nat \<Rightarrow> string" where
  "strncpy src n = take n src @ replicate (n - length src) NUL"

lemma length_strncpy [simp]: "length (strncpy src n) = n"
  by (simp add: strncpy_def)

text \<open>
  \<open>strtol(s, NULL, 10)\<close>: leading white space, an optional sign, the decimal digits that follow,
  saturated to a 64-bit \<open>long\<close>; \<open>atoi\<close> is its conversion to \<open>int\<close>, as glibc defines it.
\<close>

definition digit_val :: "char \<Rightarrow> int" where
  "digit_val c = int (ord c) - 48"

fun digits_value :: "int \<Rightarrow> string \<Rightarrow> int" where
  "digits_value acc [] = acc"
| "digits_value acc (c # cs) =
     (if isdigit c then digits_value (10 * acc + digit_val c) cs else acc)"

definition strtol10 :: "string \<Rightarrow> int" where
  "strtol10 s =
     (let t = dropWhile isspace s;
          v = (case t of [] \<Rightarrow> 0
               | c # cs \<Rightarrow> if c = CHR ''-'' then - digits_value 0 cs
                          else if c = CHR ''+'' then digits_value 0 cs
                          else digits_value 0 t)
      in max (- (2 ^ 63)) (min (2 ^ 63 - 1) v))"

definition atoi :: "string \<Rightarrow> int" where
  "atoi s = to_int32 (strtol10 s)"

subsection \<open>Integer conversions of printf\<close>

definition digit_char :: "nat \<Rightarrow> char" where
  "digit_char d = (if d < 10 then char_of (48 + d) else char_of (55 + d))"

definition char_digit :: "char \<Rightarrow> nat" where
  "char_digit c = (if ord c \<le> 57 then ord c - 48 else ord c - 55)"

fun show_base :: "nat \<Rightarrow> nat \<Rightarrow> string" where
  "show_base b n =
     (if b < 2 \<or> n < b then [digit_char n] else show_base b (n div b) @ [digit_char (n mod b)])"

declare show_base.simps [simp del]

definition pad0 :: "nat \<Rightarrow> string \<Rightarrow> string" where
  "pad0 w s = replicate (w - length s) (CHR ''0'') @ s"

definition show_nat :: "nat \<Rightarrow> string" where
  "show_nat n = show_base 10 n"

definition show_int :: "int \<Rightarrow> string" where
  "show_int i = (if i < 0 then CHR ''-'' # show_nat (nat (- i)) else show_nat (nat i))"

definition read_base :: "nat \<Rightarrow> string \<Rightarrow> nat" where
  "read_base b s = foldl (\<lambda>acc c. b * acc + char_digit c) 0 s"

lemma char_digit_digit_char [simp]: "d < 36 \<Longrightarrow> char_digit (digit_char d) = d"
  by (auto simp: char_digit_def digit_char_def)

lemma digit_char_0: "digit_char 0 = CHR ''0''"
  by code_simp

lemma ord_digit_char: "d < 36 \<Longrightarrow> ord (digit_char d) = (if d < 10 then 48 + d else 55 + d)"
  by (simp add: digit_char_def)

text \<open>The characters of a printed number are none of the separators around it.\<close>

definition is_digit_char :: "char \<Rightarrow> bool" where
  "is_digit_char c \<longleftrightarrow> (48 \<le> ord c \<and> ord c \<le> 57) \<or> (65 \<le> ord c \<and> ord c \<le> 90)"

lemma is_digit_char_digit [simp, intro]: "d < 36 \<Longrightarrow> is_digit_char (digit_char d)"
  by (simp add: is_digit_char_def ord_digit_char)

lemma is_digit_char_mod [simp]: "0 < b \<Longrightarrow> b \<le> 36 \<Longrightarrow> is_digit_char (digit_char (n mod b))"
  using mod_less_divisor [of b n] by (intro is_digit_char_digit) linarith

lemma is_digit_char_not_sep [simp]:
  "\<not> is_digit_char SP" "\<not> is_digit_char NL" "\<not> is_digit_char (CHR '':'')" "\<not> is_digit_char NUL"
  by (simp_all add: is_digit_char_def)

lemma set_show_base: "b \<le> 36 \<Longrightarrow> 2 \<le> b \<Longrightarrow> c \<in> set (show_base b n) \<Longrightarrow> is_digit_char c"
proof (induction b n rule: show_base.induct)
  case (1 b n)
  then show ?case by (cases "n < b") (auto simp: show_base.simps [of b n])
qed

lemma set_pad0: "c \<in> set (pad0 w s) \<Longrightarrow> is_digit_char c \<or> c \<in> set s"
  by (auto simp: pad0_def is_digit_char_def split: if_splits)

lemma set_pad0_show_base:
  "c \<in> set (pad0 w (show_base b n)) \<Longrightarrow> b \<le> 36 \<Longrightarrow> 2 \<le> b \<Longrightarrow> is_digit_char c"
  by (auto dest: set_pad0 set_show_base)

lemma digit_char_inj: "d < 36 \<Longrightarrow> e < 36 \<Longrightarrow> digit_char d = digit_char e \<Longrightarrow> d = e"
  by (metis char_digit_digit_char)

lemma read_base_snoc: "read_base b (s @ [c]) = b * read_base b s + char_digit c"
  by (simp add: read_base_def)

lemma read_show_base: "2 \<le> b \<Longrightarrow> b \<le> 36 \<Longrightarrow> read_base b (show_base b n) = n"
proof (induction b n rule: show_base.induct)
  case (1 b n)
  show ?case
  proof (cases "n < b")
    case True
    with 1 show ?thesis by (subst show_base.simps) (simp add: read_base_def)
  next
    case False
    have md: "n mod b < 36"
      using mod_less_divisor [of b n] "1.prems" by linarith
    with 1 False show ?thesis
      by (subst show_base.simps) (simp add: read_base_snoc)
  qed
qed

lemma read_base_zeros: "read_base b (replicate k (CHR ''0'') @ s) = read_base b s"
proof -
  have "foldl (\<lambda>acc c. b * acc + char_digit c) 0 (replicate k (CHR ''0'')) = 0"
    by (induction k) (auto simp: char_digit_def)
  then show ?thesis by (simp add: read_base_def)
qed

lemma read_pad0_show_base:
  "2 \<le> b \<Longrightarrow> b \<le> 36 \<Longrightarrow> read_base b (pad0 w (show_base b n)) = n"
  by (simp add: pad0_def read_base_zeros read_show_base)

lemma length_pad0: "length (pad0 w s) = max w (length s)"
  by (simp add: pad0_def)

subsection \<open>Lists\<close>

lemma concat_replicate_length: "length (concat (replicate n xs)) = n * length xs"
  by (induction n) auto

lemma takeWhile_append_stop: "\<forall>x \<in> set xs. P x \<Longrightarrow> \<not> P y \<Longrightarrow> takeWhile P (xs @ y # ys) = xs"
  by (induction xs) auto

lemma dropWhile_append_stop: "\<forall>x \<in> set xs. P x \<Longrightarrow> \<not> P y \<Longrightarrow> dropWhile P (xs @ y # ys) = y # ys"
  by (induction xs) auto

end
