(* ===== verification/C_Bytes.thy ===== *)
theory C_Bytes
  imports C_Prelude
begin

text \<open>
  Object representations: the bytes of a little-endian host's integers, the network byte order
  functions, and the interface \<open>fixed_codec\<close> of a packed C structure (its encoding has a fixed size
  and can be read back from the front of a buffer), with the facts its clients use: injectivity and
  reading back a sequence of consecutive structures.
\<close>

subsection \<open>Little-endian integers\<close>

fun le_bytes :: "nat \<Rightarrow> nat \<Rightarrow> u8 list" where
  "le_bytes 0 v = []"
| "le_bytes (Suc n) v = of_nat v # le_bytes n (v div 256)"

fun le_value :: "u8 list \<Rightarrow> nat" where
  "le_value [] = 0"
| "le_value (b # bs) = unat b + 256 * le_value bs"

definition le16 :: "u16 \<Rightarrow> u8 list" where "le16 w = le_bytes 2 (unat w)"
definition le32 :: "u32 \<Rightarrow> u8 list" where "le32 w = le_bytes 4 (unat w)"
definition rd16 :: "u8 list \<Rightarrow> u16" where "rd16 bs = of_nat (le_value (take 2 bs))"
definition rd32 :: "u8 list \<Rightarrow> u32" where "rd32 bs = of_nat (le_value (take 4 bs))"

lemma length_le_bytes [simp]: "length (le_bytes n v) = n"
  by (induction n arbitrary: v) auto

lemma length_le16 [simp]: "length (le16 w) = 2"
  and length_le32 [simp]: "length (le32 w') = 4"
  by (simp_all add: le16_def le32_def)

lemma le_value_le_bytes: "le_value (le_bytes n v) = v mod 256 ^ n"
proof (induction n arbitrary: v)
  case (Suc n)
  have "v mod 256 ^ Suc n = v mod 256 + 256 * (v div 256 mod 256 ^ n)"
    by (simp add: mod_mult2_eq)
  with Suc show ?case by (simp add: unat_of_nat)
qed simp

lemma le_value_less: "le_value bs < 256 ^ length bs"
proof (induction bs)
  case (Cons b bs)
  have "unat b + 256 * le_value bs < 256 * Suc (le_value bs)" using unat_u8_less [of b] by simp
  also have "\<dots> \<le> 256 * 256 ^ length bs" using Cons by (simp add: Suc_leI del: mult_Suc_right)
  finally show ?case by simp
qed simp

lemma word_mult_256: "256 * w = (0 :: u8)"
proof -
  have "(256 :: u8) = 0" by simp
  then show ?thesis by (simp only: mult_zero_left)
qed

lemma le_bytes_le_value: "le_bytes (length bs) (le_value bs) = bs"
proof (induction bs)
  case (Cons b bs)
  have "(unat b + 256 * le_value bs) div 256 = le_value bs"
    using unat_u8_less [of b] by simp
  moreover have "(of_nat (unat b + 256 * le_value bs) :: u8) = b"
    by (simp add: word_mult_256)
  ultimately show ?case using Cons by simp
qed simp

lemma rd16_le16 [simp]: "rd16 (le16 w @ r) = w"
proof -
  have "unat w < 256 ^ 2" using unsigned_less [of w, where ?'a = nat] by simp
  then show ?thesis by (simp add: rd16_def le16_def le_value_le_bytes)
qed

lemma rd32_le32 [simp]: "rd32 (le32 w @ r) = w"
proof -
  have "unat w < 256 ^ 4" using unsigned_less [of w, where ?'a = nat] by simp
  then show ?thesis by (simp add: rd32_def le32_def le_value_le_bytes)
qed

subsection \<open>Network byte order\<close>

text \<open>On a little-endian host \<open>htons\<close> and \<open>ntohs\<close> swap the two bytes; \<open>htonl\<close> reverses four.\<close>

definition htons :: "u16 \<Rightarrow> u16" where "htons w = rd16 (rev (le16 w))"
definition ntohs :: "u16 \<Rightarrow> u16" where "ntohs w = rd16 (rev (le16 w))"
definition htonl :: "u32 \<Rightarrow> u32" where "htonl w = rd32 (rev (le32 w))"

lemma le16_rd16: "length bs = 2 \<Longrightarrow> le16 (rd16 bs) = bs"
proof -
  assume len: "length bs = 2"
  then have "le_value bs < 65536" using le_value_less [of bs] by simp
  with len have "unat (rd16 bs) = le_value bs" by (simp add: rd16_def unat_of_nat)
  with len show ?thesis using le_bytes_le_value [of bs] by (simp add: le16_def)
qed

lemma le32_rd32: "length bs = 4 \<Longrightarrow> le32 (rd32 bs) = bs"
proof -
  assume len: "length bs = 4"
  then have "le_value bs < 4294967296" using le_value_less [of bs] by simp
  with len have "unat (rd32 bs) = le_value bs" by (simp add: rd32_def unat_of_nat)
  with len show ?thesis using le_bytes_le_value [of bs] by (simp add: le32_def)
qed

lemma le16_htons: "le16 (htons w) = rev (le16 w)"
  by (simp add: htons_def le16_rd16)

lemma le32_htonl: "le32 (htonl w) = rev (le32 w)"
  by (simp add: htonl_def le32_rd32)

lemma ntohs_htons [simp]: "ntohs (htons w) = w"
proof -
  have "rd16 (le16 w @ []) = w" by (rule rd16_le16)
  then show ?thesis by (simp add: ntohs_def le16_htons)
qed

lemma htons_inj: "htons a = htons b \<longleftrightarrow> a = b"
  by (metis ntohs_htons)

subsection \<open>The interface of a packed structure\<close>

text \<open>\<open>n\<close> consecutive structures of \<open>sz\<close> bytes, read from the front of a buffer.\<close>

fun dec_seq :: "(u8 list \<Rightarrow> 'a) \<Rightarrow> nat \<Rightarrow> nat \<Rightarrow> u8 list \<Rightarrow> 'a list" where
  "dec_seq dec sz 0 bs = []"
| "dec_seq dec sz (Suc n) bs = dec bs # dec_seq dec sz n (drop sz bs)"

lemma length_dec_seq [simp]: "length (dec_seq dec sz n bs) = n"
  by (induction n arbitrary: bs) auto

locale fixed_codec =
  fixes enc :: "'a \<Rightarrow> u8 list"
    and dec :: "u8 list \<Rightarrow> 'a"
    and sz :: nat
  assumes length_enc: "length (enc x) = sz"
    and dec_enc: "dec (enc x @ rest) = x"
begin

lemma dec_enc_exact: "dec (enc x) = x"
  using dec_enc [of x "[]"] by simp

lemma enc_inject: "enc x = enc y \<longleftrightarrow> x = y"
  by (metis dec_enc_exact)

lemma drop_enc: "drop sz (enc x @ rest) = rest"
  by (simp add: length_enc)

lemma take_enc: "take sz (enc x @ rest) = enc x"
  by (simp add: length_enc)

lemma length_concat_enc: "length (concat (map enc xs)) = sz * length xs"
  by (induction xs) (auto simp: length_enc)

lemma dec_seq_concat: "dec_seq dec sz (length xs) (concat (map enc xs) @ rest) = xs"
  by (induction xs) (simp_all add: dec_enc drop_enc length_enc)

end

interpretation le16: fixed_codec le16 rd16 2
  by unfold_locales simp_all

interpretation le32: fixed_codec le32 rd32 4
  by unfold_locales simp_all

subsection \<open>Socket addresses\<close>

record sockaddr_in =
  sin_family :: u16
  sin_port :: u16
  sin_addr :: u32

definition AF_INET :: u16 where "AF_INET = 2"

end
