(* ===== verification/Cat.thy ===== *)
theory Cat
  imports C_Prelude
begin

text \<open>
  \<^verbatim>\<open>src/tools/cat/main.c\<close>: an imitation of the \<open>cat\<close> utility.  The file system is a partial map
  from path names to contents (\<open>fopen\<close> returns NULL outside its domain); a run is the effects on
  the standard streams and the exit status.
\<close>

type_synonym filesystem = "string \<Rightarrow> u8 list option"

text \<open>
  \<open>copy\<close>: one \<open>fgetc\<close> and one \<open>putc\<close> per iteration, until \<open>EOF\<close>.  \<open>fgetc\<close> returns the byte as a
  non-negative \<open>int\<close>, so that byte 255 is not taken for \<open>EOF\<close>.
\<close>

fun fgetc :: "u8 list \<Rightarrow> int \<times> u8 list" where
  "fgetc [] = (- 1, [])"
| "fgetc (b # bs) = (uint b, bs)"

lemma fgetc_shrinks: "(c, bs') = fgetc bs \<Longrightarrow> c \<noteq> - 1 \<Longrightarrow> length bs' < length bs"
  by (cases bs) auto

function copy :: "u8 list \<Rightarrow> u8 list \<Rightarrow> u8 list" where
  "copy i o' =
     (let (c, i') = fgetc i
      in if c = - 1 then o' else copy i' (o' @ [word_of_int c]))"
  by pat_completeness auto
termination
  by (relation "measure (\<lambda>(i, _). length i)") (auto dest: fgetc_shrinks)

declare copy.simps [simp del]

fun cat_files :: "filesystem \<Rightarrow> string list \<Rightarrow> u8 list \<Rightarrow> u8 list \<times> io list \<times> int" where
  "cat_files fs [] stdout = (stdout, [], 0)"
| "cat_files fs (f # rest) stdout =
     (case fs f of
        None \<Rightarrow> (stdout, [Perror ''cat''], 1)
      | Some content \<Rightarrow> cat_files fs rest (copy content stdout))"

text \<open>\<open>argv\<close> without the program's name; \<open>stdin\<close> is read when there is no argument.\<close>

definition cat_main :: "filesystem \<Rightarrow> u8 list \<Rightarrow> string list \<Rightarrow> u8 list \<times> io list \<times> int" where
  "cat_main fs stdin args =
     (if args = [] then (copy stdin [], [], 0) else cat_files fs args [])"

lemma copy_appends: "copy i o' = o' @ i"
proof (induction i arbitrary: o')
  case Nil
  show ?case by (simp add: copy.simps)
next
  case (Cons b bs)
  have "uint b \<noteq> - 1" using uint_ge_0 [of b] by linarith
  then have "copy (b # bs) o' = copy bs (o' @ [b])"
    by (subst copy.simps) (simp add: word_of_int_uint)
  with Cons.IH show ?case by simp
qed

lemma cat_files_all:
  "(\<forall>f \<in> set args. fs f \<noteq> None) \<Longrightarrow>
     cat_files fs args out = (out @ concat (map (the \<circ> fs) args), [], 0)"
  by (induction args arbitrary: out) (auto simp: copy_appends)

lemma cat_files_missing:
  "(\<forall>f \<in> set pre. fs f \<noteq> None) \<Longrightarrow> fs f = None \<Longrightarrow>
     cat_files fs (pre @ f # post) out = (out @ concat (map (the \<circ> fs) pre), [Perror ''cat''], 1)"
  by (induction pre arbitrary: out) (auto simp: copy_appends)

text \<open>
  (C40) When every named file can be opened, \<open>cat\<close> writes exactly the concatenation of their
  contents, in argument order, and succeeds; at the first file that cannot be opened it has written
  the files before it, reports the error and exits with status 1 without reading the rest.
\<close>

theorem cat_main_concatenates:
  assumes "pre \<noteq> []" and "\<forall>f \<in> set pre. fs f \<noteq> None" and "fs g = None"
  shows "cat_main fs inp pre = (concat (map (the \<circ> fs) pre), [], 0) \<and>
     cat_main fs inp (pre @ g # post) = (concat (map (the \<circ> fs) pre), [Perror ''cat''], 1)"
  using assms by (auto simp: cat_main_def cat_files_all cat_files_missing)

theorem cat_main_concatenates_witness:
  "cat_main [''a'' \<mapsto> [1, 255], ''b'' \<mapsto> [10]] [] [''a'', ''b''] = ([1, 255, 10], [], 0) \<and>
   cat_main [''a'' \<mapsto> [1, 255], ''b'' \<mapsto> [10]] [] [''a'', ''b'', ''zz'', ''a''] =
     ([1, 255, 10], [Perror ''cat''], 1)"
  using cat_main_concatenates
    [of "[''a'', ''b'']" "[''a'' \<mapsto> [1, 255], ''b'' \<mapsto> [10]]" "''zz''" "[]" "[''a'']"]
  by simp

end
