(* ===== verification/Getopt.thy ===== *)
theory Getopt
  imports C_Prelude
begin

text \<open>
  The part of \<open>getopt_long(3)\<close> that \<^verbatim>\<open>src/tools/hexdump/main.c\<close> uses, on the arguments after the
  program's name: short options in clusters with attached or separate arguments, long options with
  \<open>=value\<close>, a separate value and unique abbreviations, the terminator \<open>--\<close>, and the permutation that
  moves operands behind the options.  The successive results of the calls (the option's character
  and \<open>optarg\<close>; \<open>?\<close> for an unknown, ambiguous or ill-formed option) are returned as a list, the
  operands \<open>argv[optind..]\<close> as a second list.  The diagnostics \<open>getopt_long\<close> prints by itself are not
  modelled.
\<close>

record long_option =
  lo_name :: string
  lo_has_arg :: bool
  lo_val :: char

text \<open>The short option \<open>c\<close> in the option string: \<open>None\<close> if unknown, else whether it takes an argument.\<close>

fun short_arg :: "string \<Rightarrow> char \<Rightarrow> bool option" where
  "short_arg [] c = None"
| "short_arg (x # xs) c =
     (if c = CHR '':'' \<or> c = CHR '';'' then None
      else if x = c then Some (case xs of [] \<Rightarrow> False | y # _ \<Rightarrow> y = CHR '':'')
      else short_arg xs c)"

fun short_cluster ::
  "string \<Rightarrow> string \<Rightarrow> string list \<Rightarrow> (char \<times> string) list \<times> string list" where
  "short_cluster os [] args = ([], args)"
| "short_cluster os (c # cs) args =
     (case short_arg os c of
        None \<Rightarrow> (let (found, rest) = short_cluster os cs args in ((CHR ''?'', []) # found, rest))
      | Some False \<Rightarrow> (let (found, rest) = short_cluster os cs args in ((c, []) # found, rest))
      | Some True \<Rightarrow>
          if cs \<noteq> [] then ([(c, cs)], args)
          else (case args of
                  [] \<Rightarrow> ([(CHR ''?'', [])], [])
                | a # rest \<Rightarrow> ([(c, a)], rest)))"

definition long_match :: "long_option list \<Rightarrow> string \<Rightarrow> long_option option" where
  "long_match los name =
     (case find (\<lambda>l. lo_name l = name) los of
        Some l \<Rightarrow> Some l
      | None \<Rightarrow>
          (case filter (\<lambda>l. take (length name) (lo_name l) = name) los of
             [l] \<Rightarrow> Some l
           | _ \<Rightarrow> None))"

definition long_opt ::
  "long_option list \<Rightarrow> string \<Rightarrow> string list \<Rightarrow> (char \<times> string) \<times> string list" where
  "long_opt los s args =
     (let name = takeWhile (\<lambda>c. c \<noteq> CHR ''='') s; eq = dropWhile (\<lambda>c. c \<noteq> CHR ''='') s
      in case long_match los name of
           None \<Rightarrow> ((CHR ''?'', []), args)
         | Some l \<Rightarrow>
             if eq \<noteq> [] then
               (if lo_has_arg l then ((lo_val l, tl eq), args) else ((CHR ''?'', []), args))
             else if lo_has_arg l then
               (case args of [] \<Rightarrow> ((CHR ''?'', []), []) | a # rest \<Rightarrow> ((lo_val l, a), rest))
             else ((lo_val l, []), args))"

lemma short_cluster_length: "(found, rest) = short_cluster os cs args \<Longrightarrow> length rest \<le> length args"
  by (induction os cs args arbitrary: found rest rule: short_cluster.induct)
    (auto split: option.splits bool.splits prod.splits if_splits list.splits)

lemma long_opt_length: "(found, rest) = long_opt los s args \<Longrightarrow> length rest \<le> length args"
  by (auto simp: long_opt_def Let_def split: option.splits if_splits list.splits)

function getopt_long ::
  "string \<Rightarrow> long_option list \<Rightarrow> string list \<Rightarrow> (char \<times> string) list \<times> string list" where
  "getopt_long os los [] = ([], [])"
| "getopt_long os los (a # as) =
     (if a = ''--'' then ([], as)
      else if take 2 a = ''--'' then
        (let (found, rest) = long_opt los (drop 2 a) as;
             (opts, operands) = getopt_long os los rest
         in (found # opts, operands))
      else if take 1 a = ''-'' \<and> a \<noteq> ''-'' then
        (let (found, rest) = short_cluster os (drop 1 a) as;
             (opts, operands) = getopt_long os los rest
         in (found @ opts, operands))
      else
        (let (opts, operands) = getopt_long os los as in (opts, a # operands)))"
  by pat_completeness auto
termination
  by (relation "measure (\<lambda>(_, _, args). length args)")
    (auto dest: short_cluster_length long_opt_length)

end
