(* ===== verification/Hexdump.thy ===== *)
theory Hexdump
  imports Getopt C_Bytes
begin

text \<open>
  \<^verbatim>\<open>src/tools/hexdump/main.c\<close>: the \<open>hex3\<close> dump utility.  The options are a record with the fields
  of \<open>hexdump_options\<close> at their C widths; \<open>parse_arguments\<close> walks over the results of
  \<open>getopt_long\<close>; \<open>hexdump\<close> and the three printers produce the text written to the output stream.
  The lemmas show that accepted options are in range, that the lines partition the input, that the
  data column has the same width on every line, and that the dump can be read back.
\<close>

datatype offset_format_type = OFFSET_HEX | OFFSET_DECIMAL

datatype data_format_type = DATA_HEX | DATA_BINARY

record hexdump_options =
  width :: u32
  show_ascii :: u32
  show_offset :: u32
  offset_format :: offset_format_type
  data_format :: data_format_type
  grouping :: u32
  filename :: "string option"
  output_filename :: "string option"

definition default_options :: hexdump_options where
  "default_options =
     \<lparr>width = 16, show_ascii = 1, show_offset = 1, offset_format = OFFSET_HEX,
      data_format = DATA_HEX, grouping = 1, filename = None, output_filename = None\<rparr>"

subsection \<open>Command line\<close>

definition help_text :: "io list" where
  "help_text =
     [Out (''Usage: hex3 [options]... file'' @ [NL]),
      Out (''-w, --width=INTEGER     the number of bytes per line (1-255)'' @ [NL]),
      Out (''-a, --no-ascii          remove printable characters column'' @ [NL]),
      Out (''-O, --no-offset         remove the offset column'' @ [NL]),
      Out (''-d, --decimal-offset    output the offset column in decimal'' @ [NL]),
      Out (''-b, --binary            output data in binary representation'' @ [NL]),
      Out (''-o, --output=FILE       set destination file'' @ [NL]),
      Out (''-g, --group=INTEGER     set byte grouping to 2, 4 or 8'' @ [NL]),
      Out (''-h, --help              display this help'' @ [NL])]"

definition hex3_long_options :: "long_option list" where
  "hex3_long_options =
     [\<lparr>lo_name = ''width'', lo_has_arg = True, lo_val = CHR ''w''\<rparr>,
      \<lparr>lo_name = ''no-ascii'', lo_has_arg = False, lo_val = CHR ''a''\<rparr>,
      \<lparr>lo_name = ''no-offset'', lo_has_arg = False, lo_val = CHR ''O''\<rparr>,
      \<lparr>lo_name = ''decimal-offset'', lo_has_arg = False, lo_val = CHR ''d''\<rparr>,
      \<lparr>lo_name = ''binary'', lo_has_arg = False, lo_val = CHR ''b''\<rparr>,
      \<lparr>lo_name = ''output'', lo_has_arg = True, lo_val = CHR ''o''\<rparr>,
      \<lparr>lo_name = ''group'', lo_has_arg = True, lo_val = CHR ''g''\<rparr>,
      \<lparr>lo_name = ''help'', lo_has_arg = False, lo_val = CHR ''h''\<rparr>]"

definition hex3_optstring :: string where
  "hex3_optstring = ''w:aOdbo:g:h''"

text \<open>
  One iteration of the option loop: \<open>Inl\<close> holds the messages printed before \<open>return 1\<close>, \<open>Inr\<close> the
  options with which the loop goes on.  The result of \<open>atoi\<close> is converted to \<open>unsigned int\<close>.
\<close>

definition parse_option :: "hexdump_options \<Rightarrow> char \<times> string \<Rightarrow> io list + hexdump_options" where
  "parse_option opts p =
     (let opt = fst p; optarg = snd p in
      if opt = CHR ''w'' then
        (let w = to_uint (atoi optarg) in
         if w < 1 \<or> 255 < w then Inl [Err (''Error: width must be within 1-255'' @ [NL])]
         else Inr (opts\<lparr>width := w\<rparr>))
      else if opt = CHR ''a'' then Inr (opts\<lparr>show_ascii := 0\<rparr>)
      else if opt = CHR ''O'' then Inr (opts\<lparr>show_offset := 0\<rparr>)
      else if opt = CHR ''d'' then Inr (opts\<lparr>offset_format := OFFSET_DECIMAL\<rparr>)
      else if opt = CHR ''b'' then Inr (opts\<lparr>data_format := DATA_BINARY\<rparr>)
      else if opt = CHR ''o'' then Inr (opts\<lparr>output_filename := Some optarg\<rparr>)
      else if opt = CHR ''g'' then
        (let g = to_uint (atoi optarg) in
         if g \<noteq> 1 \<and> g \<noteq> 2 \<and> g \<noteq> 4 \<and> g \<noteq> 8
         then Inl [Err (''Error: byte grouping must be 2, 4 or 8'' @ [NL])]
         else Inr (opts\<lparr>grouping := g\<rparr>))
      else if opt = CHR ''h'' then Inl help_text
      else if opt = CHR ''?'' then
        Inl [Err (''Error: unknown option or unknown argument'' @ [NL] @ ''Use -h for help'' @ [NL])]
      else Inl [Err (''Error: use -h for help'' @ [NL])])"

fun parse_options ::
  "hexdump_options \<Rightarrow> (char \<times> string) list \<Rightarrow> io list + hexdump_options" where
  "parse_options opts [] = Inr opts"
| "parse_options opts (p # ps) =
     (case parse_option opts p of Inl es \<Rightarrow> Inl es | Inr opts' \<Rightarrow> parse_options opts' ps)"

definition parse_arguments :: "string list \<Rightarrow> hexdump_options \<Rightarrow> io list + hexdump_options" where
  "parse_arguments args opts =
     (let (found, operands) = getopt_long hex3_optstring hex3_long_options args
      in case parse_options opts found of
           Inl es \<Rightarrow> Inl es
         | Inr opts' \<Rightarrow>
             (case operands of
                [] \<Rightarrow> Inl [Err (''Error: file name must be provided'' @ [NL])]
              | f # _ \<Rightarrow> Inr (opts'\<lparr>filename := Some f\<rparr>)))"

subsection \<open>The dump\<close>

definition print_offset :: "hexdump_options \<Rightarrow> u64 \<Rightarrow> string" where
  "print_offset opts offset =
     (case offset_format opts of
        OFFSET_HEX \<Rightarrow> pad0 8 (show_base 16 (unat offset)) @ '':  ''
      | OFFSET_DECIMAL \<Rightarrow> pad0 8 (show_base 10 (unat offset)) @ '':  '')"

text \<open>The separator printed before byte \<open>i\<close> of a line, and the byte itself.\<close>

definition group_sep :: "hexdump_options \<Rightarrow> nat \<Rightarrow> string" where
  "group_sep opts i = (if i > 0 \<and> i mod unat (grouping opts) = 0 then ''  '' else [])"

definition print_byte :: "hexdump_options \<Rightarrow> u8 \<Rightarrow> string" where
  "print_byte opts b =
     (case data_format opts of
        DATA_HEX \<Rightarrow> pad0 2 (show_base 16 (unat b))
      | DATA_BINARY \<Rightarrow> concat (map (\<lambda>j. show_nat (unat (drop_bit j b AND 1))) [7, 6, 5, 4, 3, 2, 1, 0]))"

definition print_blank :: "hexdump_options \<Rightarrow> string" where
  "print_blank opts =
     (case data_format opts of DATA_HEX \<Rightarrow> ''  '' | DATA_BINARY \<Rightarrow> ''        '')"

text \<open>The first loop of \<open>print_data\<close>, from index \<open>i\<close>.\<close>

fun print_bytes :: "hexdump_options \<Rightarrow> nat \<Rightarrow> u8 list \<Rightarrow> string" where
  "print_bytes opts i [] = []"
| "print_bytes opts i (b # bs) = group_sep opts i @ print_byte opts b @ print_bytes opts (Suc i) bs"

text \<open>The padding loop: \<open>j\<close> is \<open>bytes_read_line + k\<close>, \<open>m\<close> the missing bytes still to print.\<close>

fun print_padding :: "hexdump_options \<Rightarrow> nat \<Rightarrow> nat \<Rightarrow> string" where
  "print_padding opts j 0 = []"
| "print_padding opts j (Suc m) = group_sep opts j @ print_blank opts @ print_padding opts (Suc j) m"

definition print_data :: "hexdump_options \<Rightarrow> u8 list \<Rightarrow> string" where
  "print_data opts buffer =
     print_bytes opts 0 buffer @
     (if length buffer \<noteq> unat (width opts)
      then print_padding opts (length buffer) (unat (width opts) - length buffer)
      else [])"

definition print_ascii :: "u8 list \<Rightarrow> string" where
  "print_ascii buffer =
     ''  '' @ map (\<lambda>b. if isprint (char_of_byte b) then char_of_byte b else CHR ''.'') buffer"

definition dump_line :: "hexdump_options \<Rightarrow> u64 \<Rightarrow> u8 list \<Rightarrow> string" where
  "dump_line opts offset buffer =
     (if show_offset opts \<noteq> 0 then print_offset opts offset else []) @
     print_data opts buffer @
     (if show_ascii opts \<noteq> 0 then print_ascii buffer else []) @ [NL]"

text \<open>The loop of \<open>hexdump\<close>: \<open>fread(buffer, 1, width, in)\<close> takes up to \<open>width\<close> bytes of what is left.\<close>

function hexdump :: "u8 list \<Rightarrow> hexdump_options \<Rightarrow> u64 \<Rightarrow> string" where
  "hexdump inp opts offset =
     (let buffer = take (unat (width opts)) inp
      in if buffer = [] then []
         else dump_line opts offset buffer @
              hexdump (drop (unat (width opts)) inp) opts (offset + of_nat (length buffer)))"
  by pat_completeness auto
termination
  by (relation "measure (\<lambda>(inp, _, _). length inp)") auto

declare hexdump.simps [simp del]

text \<open>
  \<open>main\<close>: the file system, the path names that can be opened for writing, and the arguments give the
  new file system, the effects on the standard streams and the exit status.  Opening the output
  file truncates it before the first read of the input.
\<close>

definition hexdump_main ::
  "(string \<Rightarrow> u8 list option) \<Rightarrow> (string \<Rightarrow> bool) \<Rightarrow> string list \<Rightarrow>
     (string \<Rightarrow> u8 list option) \<times> io list \<times> int" where
  "hexdump_main fs writable args =
     (case parse_arguments args default_options of
        Inl es \<Rightarrow> (fs, es, 1)
      | Inr opts \<Rightarrow>
          (let inf = the (filename opts) in
           case fs inf of
             None \<Rightarrow> (fs, [], 1)
           | Some content \<Rightarrow>
               (case output_filename opts of
                  None \<Rightarrow> (fs, [Out (hexdump content opts 0)], 0)
                | Some outf \<Rightarrow>
                    if \<not> writable outf then (fs, [], 1)
                    else (let fs1 = fs(outf \<mapsto> []); content' = the (fs1 inf)
                          in (fs1(outf \<mapsto> bytes_of (hexdump content' opts 0)), [], 0)))))"

subsection \<open>Accepted options\<close>

definition valid_options :: "hexdump_options \<Rightarrow> bool" where
  "valid_options opts \<longleftrightarrow>
     1 \<le> unat (width opts) \<and> unat (width opts) \<le> 255 \<and> unat (grouping opts) \<in> {1, 2, 4, 8}"

lemma valid_default [wf_intros]: "valid_options default_options"
  by (simp add: valid_options_def default_options_def)

lemma parse_option_valid:
  assumes "valid_options opts" and "parse_option opts p = Inr opts'"
  shows "valid_options opts' \<and> filename opts' = filename opts"
proof -
  have w: "1 \<le> unat w \<and> unat w \<le> 255" if "\<not> w < 1" "\<not> 255 < w" for w :: u32
    using that by (simp_all add: word_less_nat_alt not_less)
  show ?thesis
    using assms w
    by (auto simp: parse_option_def Let_def valid_options_def split: if_splits)
qed

lemma parse_options_valid:
  "valid_options opts \<Longrightarrow> parse_options opts ps = Inr opts' \<Longrightarrow> valid_options opts'"
  by (induction ps arbitrary: opts) (auto split: sum.splits dest: parse_option_valid)

subsection \<open>The lines of a dump\<close>

text \<open>The reference: the input cut into consecutive pieces of \<open>n\<close> bytes, the last one maybe shorter.\<close>

fun chunks :: "nat \<Rightarrow> 'a list \<Rightarrow> 'a list list" where
  "chunks n xs = (if n = 0 \<or> xs = [] then [] else take n xs # chunks n (drop n xs))"

declare chunks.simps [simp del]

fun dump_lines :: "hexdump_options \<Rightarrow> nat \<Rightarrow> u8 list list \<Rightarrow> string" where
  "dump_lines opts i [] = []"
| "dump_lines opts i (c # cs) =
     dump_line opts (of_nat (i * unat (width opts))) c @ dump_lines opts (Suc i) cs"

lemma chunks_Nil [simp]: "chunks n [] = []"
  by (simp add: chunks.simps)

lemma chunks_step: "0 < n \<Longrightarrow> xs \<noteq> [] \<Longrightarrow> chunks n xs = take n xs # chunks n (drop n xs)"
  by (simp add: chunks.simps [of n xs])

lemma concat_chunks: "0 < n \<Longrightarrow> concat (chunks n xs) = xs"
  by (induction n xs rule: chunks.induct) (subst chunks.simps, auto)

lemma chunks_length: "c \<in> set (chunks n xs) \<Longrightarrow> 0 < length c \<and> length c \<le> n"
proof (induction n xs rule: chunks.induct)
  case (1 n xs)
  show ?case
  proof (cases "n = 0 \<or> xs = []")
    case True
    with "1.prems" show ?thesis by (simp add: chunks.simps)
  next
    case False
    with 1 show ?thesis by (auto simp: chunks_step)
  qed
qed

lemma hexdump_dump_lines:
  "0 < unat (width opts) \<Longrightarrow>
     hexdump inp opts (of_nat (i * unat (width opts))) = dump_lines opts i (chunks (unat (width opts)) inp)"
proof (induction "unat (width opts)" inp arbitrary: i rule: chunks.induct)
  case (1 inp)
  let ?w = "unat (width opts)"
  show ?case
  proof (cases "inp = []")
    case True
    then show ?thesis by (simp add: hexdump.simps)
  next
    case False
    show ?thesis
    proof (cases "drop ?w inp = []")
      case True
      with False "1.prems" show ?thesis
        by (simp add: hexdump.simps [of inp] hexdump.simps [of "[]"] chunks_step)
    next
      case more: False
      then have "length (take ?w inp) = ?w" by simp
      moreover have "hexdump (drop ?w inp) opts (of_nat (Suc i * ?w)) =
          dump_lines opts (Suc i) (chunks ?w (drop ?w inp))"
        by (rule "1.hyps") (use "1.prems" False in auto)
      ultimately show ?thesis
        using False "1.prems"
        by (subst hexdump.simps) (simp add: Let_def chunks_step algebra_simps)
    qed
  qed
qed

subsection \<open>Columns\<close>

definition cell_len :: "hexdump_options \<Rightarrow> nat" where
  "cell_len opts = (case data_format opts of DATA_HEX \<Rightarrow> 2 | DATA_BINARY \<Rightarrow> 8)"

lemma show_base_small: "n < b \<Longrightarrow> show_base b n = [digit_char n]"
  by (simp add: show_base.simps)

lemma show_hex_byte: "pad0 2 (show_base 16 (unat (b :: u8))) = [digit_char (unat b div 16), digit_char (unat b mod 16)]"
proof (cases "unat b < 16")
  case True
  then show ?thesis by (simp add: show_base_small pad0_def digit_char_0)
next
  case False
  have "unat b div 16 < 16" using unat_u8_less [of b] by linarith
  with False have "show_base 16 (unat b) = [digit_char (unat b div 16), digit_char (unat b mod 16)]"
    by (subst show_base.simps) (simp add: show_base_small)
  then show ?thesis by (simp add: pad0_def)
qed

lemma unat_bit: "unat (drop_bit j (b :: u8) AND 1) = unat b div 2 ^ j mod 2"
proof -
  have "unat (take_bit 1 (drop_bit j b)) = take_bit 1 (drop_bit j (unat b))"
    by (simp only: unsigned_take_bit_eq unat_drop_bit_eq)
  moreover have "drop_bit j b AND 1 = take_bit 1 (drop_bit j b)"
    by (simp only: and_one_eq take_bit_eq_mod power_one_right)
  ultimately show ?thesis
    by (simp only: take_bit_eq_mod drop_bit_eq_div power_one_right)
qed

lemma print_byte_binary:
  "data_format opts = DATA_BINARY \<Longrightarrow>
     print_byte opts b = map (\<lambda>j. digit_char (unat b div 2 ^ j mod 2)) [7, 6, 5, 4, 3, 2, 1, 0]"
  by (simp add: print_byte_def unat_bit show_nat_def show_base_small)

lemma length_print_byte [simp]: "length (print_byte opts b) = cell_len opts"
  by (cases "data_format opts")
    (simp_all add: print_byte_binary cell_len_def, simp add: print_byte_def show_hex_byte)

lemma length_print_blank [simp]: "length (print_blank opts) = cell_len opts"
  by (simp add: print_blank_def cell_len_def split: data_format_type.splits)

text \<open>Columns taken by the data cells \<open>i, \<dots>, i + n - 1\<close> of a line.\<close>

fun cols :: "hexdump_options \<Rightarrow> nat \<Rightarrow> nat \<Rightarrow> nat" where
  "cols opts i 0 = 0"
| "cols opts i (Suc n) = length (group_sep opts i) + cell_len opts + cols opts (Suc i) n"

lemma cols_add: "cols opts i (m + n) = cols opts i m + cols opts (i + m) n"
  by (induction m arbitrary: i) auto

lemma length_print_bytes: "length (print_bytes opts i bs) = cols opts i (length bs)"
  by (induction bs arbitrary: i) auto

lemma length_print_padding: "length (print_padding opts j m) = cols opts j m"
  by (induction m arbitrary: j) auto

lemma length_print_data:
  "length buffer \<le> unat (width opts) \<Longrightarrow> length (print_data opts buffer) = cols opts 0 (unat (width opts))"
  using cols_add [of opts 0 "length buffer" "unat (width opts) - length buffer"]
  by (auto simp: print_data_def length_print_bytes length_print_padding)

subsection \<open>Reading a dump back\<close>

text \<open>
  A reader for the tool's output format: it splits the text into lines, skips the offset column, and
  reads cells until it meets a blank one or has read a whole line.
\<close>

definition read_cell :: "hexdump_options \<Rightarrow> string \<Rightarrow> u8" where
  "read_cell opts s =
     of_nat (read_base (case data_format opts of DATA_HEX \<Rightarrow> 16 | DATA_BINARY \<Rightarrow> 2) s)"

fun read_cells :: "hexdump_options \<Rightarrow> nat \<Rightarrow> nat \<Rightarrow> string \<Rightarrow> u8 list" where
  "read_cells opts i 0 s = []"
| "read_cells opts i (Suc n) s =
     (let t = drop (length (group_sep opts i)) s; cell = take (cell_len opts) t
      in if hd cell = SP then []
         else read_cell opts cell # read_cells opts (Suc i) n (drop (cell_len opts) t))"

definition undump_line :: "hexdump_options \<Rightarrow> string \<Rightarrow> u8 list" where
  "undump_line opts s =
     read_cells opts 0 (unat (width opts))
       (if show_offset opts \<noteq> 0 then drop 3 (dropWhile (\<lambda>c. c \<noteq> CHR '':'') s) else s)"

function undump :: "hexdump_options \<Rightarrow> string \<Rightarrow> u8 list" where
  "undump opts s =
     (if s = [] then []
      else undump_line opts (takeWhile (\<lambda>c. c \<noteq> NL) s) @
           undump opts (drop 1 (dropWhile (\<lambda>c. c \<noteq> NL) s)))"
  by pat_completeness auto
termination
proof (relation "measure (\<lambda>(_, s). length s)", goal_cases)
  case (2 opts s)
  have "length (dropWhile (\<lambda>c. c \<noteq> NL) s) \<le> length s" by (rule length_dropWhile_le)
  with 2 show ?case by (cases s) (auto simp: le_imp_less_Suc length_dropWhile_le diff_less_Suc
        intro: le_less_trans [OF diff_le_self])
qed simp

declare undump.simps [simp del]

lemma binary_value:
  fixes n :: nat
  shows "n < 256 \<Longrightarrow>
    2 * (2 * (2 * (2 * (2 * (2 * (2 * (n div 128 mod 2) + n div 64 mod 2) + n div 32 mod 2) +
      n div 16 mod 2) + n div 8 mod 2) + n div 4 mod 2) + n div 2 mod 2) + n mod 2 = n"
proof -
  assume "n < 256"
  have step: "2 * (n div (2 * k)) + n div k mod 2 = n div k" for k
    by (simp add: div_mult2_eq mult.commute [of 2 k])
  from \<open>n < 256\<close> have "n div 128 < 2" by simp
  then have "n div 128 mod 2 = n div 128" by simp
  then show ?thesis
    using step [of 64] step [of 32] step [of 16] step [of 8] step [of 4] step [of 2] step [of 1]
    by simp
qed

lemma read_cell_print_byte: "read_cell opts (print_byte opts b) = b"
proof (cases "data_format opts")
  case DATA_HEX
  have "read_base 16 (pad0 2 (show_base 16 (unat b))) = unat b" by (rule read_pad0_show_base) simp_all
  with DATA_HEX show ?thesis by (simp add: read_cell_def print_byte_def)
next
  case DATA_BINARY
  have "char_digit (digit_char (n mod 2)) = n mod 2" for n
  proof (rule char_digit_digit_char)
    have "n mod 2 < 2" by simp
    then show "n mod 2 < 36" by linarith
  qed
  then have "read_base 2 (print_byte opts b) = unat b"
    using DATA_BINARY binary_value [OF unat_u8_less [of b]]
    by (simp add: print_byte_binary read_base_def)
  with DATA_BINARY show ?thesis by (simp add: read_cell_def)
qed

lemma set_print_byte: "c \<in> set (print_byte opts b) \<Longrightarrow> is_digit_char c"
  by (cases "data_format opts")
    (auto simp: print_byte_binary, auto simp: print_byte_def dest: set_pad0_show_base)

lemma cell_len_pos: "0 < cell_len opts"
  by (simp add: cell_len_def split: data_format_type.splits)

lemma hd_print_byte: "hd (print_byte opts b) \<noteq> SP"
proof -
  have "print_byte opts b \<noteq> []"
    using length_print_byte [of opts b] cell_len_pos [of opts] by force
  then have "hd (print_byte opts b) \<in> set (print_byte opts b)" by simp
  then show ?thesis using set_print_byte is_digit_char_not_sep(1) by metis
qed

lemma hd_print_blank: "hd (print_blank opts @ s) = SP \<and> hd (take (cell_len opts) (print_blank opts @ s)) = SP"
  by (simp add: print_blank_def cell_len_def split: data_format_type.splits)

lemma read_cells_print:
  "length bs \<le> n \<Longrightarrow> (length bs < n \<Longrightarrow> \<exists>s. rest = print_padding opts (i + length bs) (n - length bs) @ s) \<Longrightarrow>
     read_cells opts i n (print_bytes opts i bs @ rest) = bs"
proof (induction bs arbitrary: i n)
  case Nil
  show ?case
  proof (cases n)
    case (Suc m)
    with Nil obtain s where "rest = group_sep opts i @ print_blank opts @ print_padding opts (Suc i) m @ s"
      by auto
    then show ?thesis using Suc hd_print_blank [of opts] by simp
  qed simp
next
  case (Cons b bs)
  then obtain m where m: "n = Suc m" "length bs \<le> m" by (cases n) auto
  have "read_cells opts (Suc i) m (print_bytes opts (Suc i) bs @ rest) = bs"
    by (rule Cons.IH) (use m Cons.prems(2) in auto)
  then show ?case by (simp add: m hd_print_byte read_cell_print_byte)
qed

lemma undump_line_data:
  assumes "length buffer \<le> unat (width opts)"
  shows "read_cells opts 0 (unat (width opts)) (print_data opts buffer @ rest) = buffer"
proof -
  let ?m = "unat (width opts) - length buffer"
  have "print_data opts buffer @ rest = print_bytes opts 0 buffer @ (print_padding opts (length buffer) ?m @ rest)"
    using assms by (auto simp: print_data_def)
  then show ?thesis using assms by (simp only: ) (rule read_cells_print, auto)
qed

text \<open>The parts of a line hold no newline, and the offset no colon before its end.\<close>

lemma print_offset_shape:
  "\<exists>digits. print_offset opts off = digits @ '':  '' \<and> (\<forall>c \<in> set digits. c \<noteq> CHR '':'' \<and> c \<noteq> NL)"
proof -
  have "c \<noteq> CHR '':'' \<and> c \<noteq> NL" if "b \<in> {10, 16}" "c \<in> set (pad0 8 (show_base b (unat off)))" for b c
    using that by (auto dest!: set_pad0_show_base)
  then show ?thesis by (auto simp: print_offset_def split: offset_format_type.splits)
qed

lemma NL_print_bytes: "NL \<notin> set (print_bytes opts i bs)"
  by (induction bs arbitrary: i) (auto simp: group_sep_def dest!: set_print_byte split: if_splits)

lemma NL_print_padding: "NL \<notin> set (print_padding opts j m)"
  by (induction m arbitrary: j)
    (auto simp: group_sep_def print_blank_def split: if_splits data_format_type.splits)

lemma NL_print_ascii: "NL \<notin> set (print_ascii bs)"
proof -
  have "(if isprint c then c else CHR ''.'') \<noteq> NL" for c
    by (auto simp: isprint_def)
  then show ?thesis by (auto simp: print_ascii_def) (metis)+
qed

definition line_body :: "hexdump_options \<Rightarrow> u64 \<Rightarrow> u8 list \<Rightarrow> string" where
  "line_body opts off buffer =
     (if show_offset opts \<noteq> 0 then print_offset opts off else []) @ print_data opts buffer @
     (if show_ascii opts \<noteq> 0 then print_ascii buffer else [])"

lemma dump_line_body: "dump_line opts off buffer = line_body opts off buffer @ [NL]"
  by (simp add: dump_line_def line_body_def)

lemma NL_line_body: "NL \<notin> set (line_body opts off buffer)"
  using print_offset_shape [of opts off] NL_print_bytes NL_print_padding NL_print_ascii
  by (auto simp: line_body_def print_data_def split: if_splits)

lemma takeWhile_line_body [simp]:
  "takeWhile (\<lambda>c. c \<noteq> NL) (line_body opts off b @ NL # s) = line_body opts off b"
  using NL_line_body [of opts off b] by (intro takeWhile_append_stop) auto

lemma dropWhile_line_body [simp]:
  "dropWhile (\<lambda>c. c \<noteq> NL) (line_body opts off b @ NL # s) = NL # s"
  using NL_line_body [of opts off b] by (intro dropWhile_append_stop) auto

lemma undump_line_body:
  assumes "length buffer \<le> unat (width opts)"
  shows "undump_line opts (line_body opts off buffer) = buffer"
proof -
  obtain digits where d: "print_offset opts off = digits @ '':  ''" "\<forall>c \<in> set digits. c \<noteq> CHR '':''"
    using print_offset_shape [of opts off] by auto
  then have "drop 3 (dropWhile (\<lambda>c. c \<noteq> CHR '':'') (print_offset opts off @ s)) = s" for s
    by (simp add: dropWhile_append_stop)
  then show ?thesis
    using undump_line_data [OF assms] by (simp add: undump_line_def line_body_def)
qed

lemma undump_dump_lines:
  "(\<And>c. c \<in> set cs \<Longrightarrow> length c \<le> unat (width opts)) \<Longrightarrow> undump opts (dump_lines opts i cs) = concat cs"
proof (induction cs arbitrary: i)
  case Nil
  show ?case by (simp add: undump.simps)
next
  case (Cons c cs)
  let ?body = "line_body opts (of_nat (i * unat (width opts))) c"
  have "undump opts (dump_lines opts i (c # cs)) =
      undump_line opts ?body @ undump opts (dump_lines opts (Suc i) cs)"
    by (subst undump.simps) (simp add: dump_line_body)
  then show ?case using Cons by (simp add: undump_line_body)
qed

lemma undump_hexdump: "valid_options opts \<Longrightarrow> undump opts (hexdump inp opts 0) = inp"
  using hexdump_dump_lines [of opts inp 0]
  by (auto simp: valid_options_def undump_dump_lines chunks_length concat_chunks)

lemma parse_arguments_valid:
  "parse_arguments args default_options = Inr opts \<Longrightarrow>
     valid_options opts \<and>
     filename opts = Some (hd (snd (getopt_long hex3_optstring hex3_long_options args)))"
  by (auto simp: parse_arguments_def valid_options_def Let_def
      split: prod.splits sum.splits list.splits
      dest: parse_options_valid [OF valid_default, unfolded valid_options_def])

subsection \<open>Properties\<close>

text \<open>
  (C19) Command lines that are accepted give a usable configuration: the width is between 1 and 255 (so a
  line fits the 256-byte buffer of \<open>hexdump\<close>), the grouping is 1, 2, 4 or 8 (so \<open>i % grouping\<close> never
  divides by zero), and the file name is the first operand.
\<close>

theorem parse_arguments_accepts_valid:
  assumes "parse_arguments args default_options = Inr opts"
  shows "1 \<le> unat (width opts) \<and> unat (width opts) < 256 \<and> unat (grouping opts) \<in> {1, 2, 4, 8} \<and>
    filename opts = Some (hd (snd (getopt_long hex3_optstring hex3_long_options args)))"
  using parse_arguments_valid [OF assms] by (auto simp: valid_options_def)

theorem parse_arguments_accepts_valid_witness:
  "\<exists>opts. parse_arguments [''-w8'', ''file'', ''--gr=2'', ''-ad''] default_options = Inr opts \<and>
     1 \<le> unat (width opts) \<and> unat (width opts) < 256 \<and> unat (grouping opts) \<in> {1, 2, 4, 8}"
proof -
  let ?opts = "default_options\<lparr>width := 8, grouping := 2, show_ascii := 0,
    offset_format := OFFSET_DECIMAL, filename := Some ''file''\<rparr>"
  have "parse_arguments [''-w8'', ''file'', ''--gr=2'', ''-ad''] default_options = Inr ?opts"
    by code_simp
  from this parse_arguments_accepts_valid [OF this] show ?thesis by blast
qed

text \<open>
  (C8) The dump can be read back: for every accepted configuration and every input, the reader
  \<open>undump\<close> recovers exactly the bytes of the input, whatever offset, ASCII, grouping and number
  format options are set, and also when the last line is incomplete.
\<close>

theorem hexdump_roundtrip:
  assumes "parse_arguments args default_options = Inr opts"
  shows "undump opts (hexdump inp opts 0) = inp"
  using parse_arguments_valid [OF assms] by (simp add: undump_hexdump)

theorem hexdump_roundtrip_witness:
  "\<exists>opts. parse_arguments [''-b'', ''-w'', ''3'', ''f''] default_options = Inr opts \<and>
     undump opts (hexdump [0, 255, 10, 58, 32] opts 0) = [0, 255, 10, 58, 32]"
proof -
  have "parse_arguments [''-b'', ''-w'', ''3'', ''f''] default_options =
      Inr (default_options\<lparr>width := 3, data_format := DATA_BINARY, filename := Some ''f''\<rparr>)"
    by code_simp
  from this hexdump_roundtrip [OF this] show ?thesis by blast
qed

text \<open>
  (C23) The shape of the dump: one line per piece of \<open>width\<close> bytes (the pieces concatenate to the
  input, only the last may be shorter), line \<open>i\<close> carries the offset \<open>i * width\<close>, and the data column
  has the same length on every line, so the ASCII column is aligned.
\<close>

theorem hexdump_layout:
  assumes "parse_arguments args default_options = Inr opts"
  defines "w \<equiv> unat (width opts)"
  shows "hexdump inp opts 0 = dump_lines opts 0 (chunks w inp) \<and> concat (chunks w inp) = inp \<and>
    (\<forall>c \<in> set (chunks w inp). 0 < length c \<and> length c \<le> w \<and> length (print_data opts c) = cols opts 0 w)"
proof -
  have w: "0 < w" using parse_arguments_valid [OF assms(1)] by (simp add: valid_options_def w_def)
  then show ?thesis
    using hexdump_dump_lines [of opts inp 0]
    by (auto simp: w_def concat_chunks length_print_data dest: chunks_length)
qed

theorem hexdump_layout_witness:
  "\<exists>opts. parse_arguments [''-w4'', ''f''] default_options = Inr opts \<and>
     hexdump [1, 2, 3, 4, 5] opts 0 = dump_lines opts 0 [ [1, 2, 3, 4], [5] ]"
proof -
  let ?opts = "default_options\<lparr>width := 4, filename := Some ''f''\<rparr>"
  have "parse_arguments [''-w4'', ''f''] default_options = Inr ?opts" by code_simp
  moreover have "chunks 4 [1, 2, 3, 4, 5 :: u8] = [ [1, 2, 3, 4], [5] ]"
    by (simp add: chunks.simps)
  ultimately show ?thesis using hexdump_layout [of _ ?opts "[1, 2, 3, 4, 5]"] by auto
qed



end
