(* ===== verification/Readability.thy ===== *)
theory Readability
  imports C_Prelude Complex_Main
begin

text \<open>
  \<^verbatim>\<open>src/tools/text-readability/main.c\<close>: the counters of \<open>parser\<close>, the index and the grade it prints.  The
  counters are \<open>float\<close>s that are only ever incremented, so they are natural numbers that stop at
  \<open>2^24\<close>.  The index is computed in \<open>double\<close>: the arithmetic is exact on rational numbers with a
  rounding function \<open>fl\<close>, a parameter, applied to every constant and every result.  \<open>parser\<close> tests
  its variable \<open>state\<close> before it is first set; the value it happens to have is a parameter too.
\<close>

subsection \<open>Counting\<close>

text \<open>\<open>x++\<close> on a \<open>float\<close> holding a natural number: \<open>2^24 + 1\<close> is rounded back to \<open>2^24\<close>.\<close>

definition float_inc :: "nat \<Rightarrow> nat" where
  "float_inc n = (if n < 2 ^ 24 then n + 1 else n)"

record counts =
  letters :: nat
  nwords :: nat
  sentences :: nat

definition OUT_WORD :: int where "OUT_WORD = 0"
definition IN_WORD :: int where "IN_WORD = 1"

definition separates :: "char \<Rightarrow> bool" where
  "separates c \<longleftrightarrow> isblank c \<or> c = NL"

definition ends_sentence :: "char \<Rightarrow> char \<Rightarrow> bool" where
  "ends_sentence prev c \<longleftrightarrow>
     prev \<noteq> CHR ''!'' \<and> c = CHR ''!'' \<or> prev \<noteq> CHR ''?'' \<and> c = CHR ''?'' \<or> prev \<noteq> CHR ''.'' \<and> c = CHR ''.''"

text \<open>One turn of the loop; \<open>prev\<close> is \<open>buffer[i - 1]\<close>, or \<open>None\<close> for \<open>i = 0\<close>.\<close>

definition parser_step :: "char option \<Rightarrow> char \<Rightarrow> int \<times> counts \<Rightarrow> int \<times> counts" where
  "parser_step prev c = (\<lambda>(state, k).
     let k1 = (if isalpha c then k\<lparr>letters := float_inc (letters k)\<rparr> else k);
         (state2, k2) =
           (if separates c then (OUT_WORD, k1)
            else if state = OUT_WORD then (IN_WORD, k1\<lparr>nwords := float_inc (nwords k1)\<rparr>)
            else (state, k1));
         k3 = (case prev of
             None \<Rightarrow> k2
           | Some p \<Rightarrow> if ends_sentence p c then k2\<lparr>sentences := float_inc (sentences k2)\<rparr> else k2)
     in (state2, k3))"

fun parser_loop :: "char option \<Rightarrow> string \<Rightarrow> int \<times> counts \<Rightarrow> int \<times> counts" where
  "parser_loop prev [] s = s"
| "parser_loop prev (c # cs) s = parser_loop (Some c) cs (parser_step prev c s)"

definition parser :: "int \<Rightarrow> string \<Rightarrow> counts \<Rightarrow> counts" where
  "parser state0 buffer k = snd (parser_loop None buffer (state0, k))"

subsection \<open>The index\<close>

text \<open>C's \<open>round\<close>: to the nearest integer, halves away from zero.\<close>

definition c_round :: "rat \<Rightarrow> int" where
  "c_round x = (if 0 \<le> x then \<lfloor>x + 1 / 2\<rfloor> else - \<lfloor>- x + 1 / 2\<rfloor>)"

definition index_value :: "(rat \<Rightarrow> rat) \<Rightarrow> counts \<Rightarrow> rat" where
  "index_value fl k =
     (let l = of_nat (letters k); w = of_nat (nwords k); s = of_nat (sentences k);
          a = fl (fl (fl (fl (588 / 10000) * l) * 100) / w);
          b = fl (fl (fl (fl (296 / 1000) * s) * 100) / w)
      in fl (fl (a - b) - fl (158 / 10)))"

definition liau_index :: "(rat \<Rightarrow> rat) \<Rightarrow> counts \<Rightarrow> int" where
  "liau_index fl k = c_round (index_value fl k)"

definition grades :: "string list" where
  "grades =
     [''7th grade'' @ [NL] @ ''Age range: 12-13 years old'', ''8th grade'' @ [NL] @ ''Age range: 13-14 years old'',
      ''9th grade'' @ [NL] @ ''Age range: 14-15 years old'', ''10th grade'' @ [NL] @ ''Age range: 15-16 years old'',
      ''11th grade'' @ [NL] @ ''Age range: 16-17 years old'', ''12th grade'' @ [NL] @ ''Age range: 17-18 years old'']"

definition grade_text :: "int \<Rightarrow> string" where
  "grade_text i =
     (if i < 1 then ''Kindergarten'' @ [NL]
      else if i \<le> 6 then ''1st to 6th grade, primary school'' @ [NL]
      else if 7 \<le> i \<and> i \<le> 12 then grades ! nat (i - 7) @ [NL]
      else if i < 16 then show_int i @ ''th grade'' @ [NL]
      else ''Grade 16+'' @ [NL])"

definition print_index :: "int \<Rightarrow> io list" where
  "print_index i =
     [Out (''Coleman-Liau formula: Based on average number of words in a sentence and average number of letters in words''
         @ [NL, NL]), Out (grade_text i)]"

subsection \<open>The program\<close>

definition strip_newlines :: "string \<Rightarrow> string" where
  "strip_newlines s = rev (dropWhile (\<lambda>c. c = NL) (rev s))"

definition readability_main ::
  "(rat \<Rightarrow> rat) \<Rightarrow> int \<Rightarrow> bool \<Rightarrow> string option \<Rightarrow> string list \<Rightarrow> io list \<times> int" where
  "readability_main fl state0 malloc_ok file argv =
     (if length argv < 2 then ([Err (''Argument required'' @ [NL])], 1)
      else case file of
        None \<Rightarrow> ([Err (''File not found'' @ [NL])], 1)
      | Some content \<Rightarrow>
          if \<not> malloc_ok then ([Err (''ALlocation failed'' @ [NL])], 1)
          else
            let buffer = cstr (strip_newlines content);
                k = parser state0 buffer \<lparr>letters = 0, nwords = 1, sentences = 0\<rparr>
            in (print_index (liau_index fl k), 0))"

subsection \<open>What is counted\<close>

definition sat :: "nat \<Rightarrow> nat" where "sat n = min n (2 ^ 24)"

lemma float_inc_sat: "float_inc (sat n) = sat (n + 1)"
  by (simp add: float_inc_def sat_def min_def)

text \<open>Every character of a text with the one before it.\<close>

definition contexts :: "string \<Rightarrow> (char option \<times> char) list" where
  "contexts s = zip (None # map Some s) s"

text \<open>The words of a text: the characters that are no separators and follow one or start the text.\<close>

definition word_count :: "string \<Rightarrow> nat" where
  "word_count s = length (filter (\<lambda>(p, c). \<not> separates c \<and> (case p of None \<Rightarrow> True | Some q \<Rightarrow> separates q)) (contexts s))"

definition sentence_count :: "string \<Rightarrow> nat" where
  "sentence_count s = length (filter (\<lambda>(p, c). c \<in> set ''!?.'' \<and> p \<noteq> None \<and> p \<noteq> Some c) (contexts s))"

definition opens_word :: "int \<Rightarrow> char option \<times> char \<Rightarrow> bool" where
  "opens_word state0 = (\<lambda>(p, c). \<not> separates c \<and> (case p of None \<Rightarrow> state0 = 0 | Some q \<Rightarrow> separates q))"

definition closes_sentence :: "char option \<times> char \<Rightarrow> bool" where
  "closes_sentence = (\<lambda>(p, c). case p of None \<Rightarrow> False | Some q \<Rightarrow> ends_sentence q c)"

lemma parser_step_state:
  "(state = 0 \<longleftrightarrow> (case prev of None \<Rightarrow> state0 = 0 | Some q \<Rightarrow> separates q)) \<Longrightarrow>
     (fst (parser_step prev c (state, k)) = 0 \<longleftrightarrow> separates c)"
  by (auto simp: parser_step_def Let_def OUT_WORD_def IN_WORD_def split: option.splits)

lemma parser_step_counts:
  assumes "state = 0 \<longleftrightarrow> (case prev of None \<Rightarrow> state0 = 0 | Some q \<Rightarrow> separates q)"
  shows "snd (parser_step prev c (state, \<lparr>letters = sat a, nwords = sat b, sentences = sat d\<rparr>)) =
    \<lparr>letters = sat (if isalpha c then a + 1 else a),
     nwords = sat (if opens_word state0 (prev, c) then b + 1 else b),
     sentences = sat (if closes_sentence (prev, c) then d + 1 else d)\<rparr>"
  using assms
  by (auto simp: parser_step_def opens_word_def closes_sentence_def Let_def OUT_WORD_def float_inc_sat
      split: option.splits)

lemma parser_loop_counts:
  assumes "state = 0 \<longleftrightarrow> (case prev of None \<Rightarrow> state0 = 0 | Some q \<Rightarrow> separates q)"
  shows "snd (parser_loop prev s (state, \<lparr>letters = sat a, nwords = sat b, sentences = sat d\<rparr>)) =
    \<lparr>letters = sat (a + length (filter isalpha s)),
     nwords = sat (b + length (filter (opens_word state0) (zip (prev # map Some s) s))),
     sentences = sat (d + length (filter closes_sentence (zip (prev # map Some s) s)))\<rparr>"
  using assms
proof (induction s arbitrary: prev state a b d)
  case (Cons c cs)
  let ?k = "\<lparr>letters = sat a, nwords = sat b, sentences = sat d\<rparr>"
  obtain state' where st: "parser_step prev c (state, ?k) =
      (state', \<lparr>letters = sat (if isalpha c then a + 1 else a),
         nwords = sat (if opens_word state0 (prev, c) then b + 1 else b),
         sentences = sat (if closes_sentence (prev, c) then d + 1 else d)\<rparr>)"
    using parser_step_counts [OF Cons.prems, of c a b d] by (metis prod.collapse)
  have "state' = 0 \<longleftrightarrow> separates c" using parser_step_state [OF Cons.prems, of c ?k] st by simp
  then show ?case using Cons.IH [of state' "Some c"] by (simp add: st)
qed simp

lemma closes_sentence_eq: "closes_sentence = (\<lambda>(p, c). c \<in> set ''!?.'' \<and> p \<noteq> None \<and> p \<noteq> Some c)"
  by (auto simp: fun_eq_iff closes_sentence_def ends_sentence_def split: option.splits)

lemma opens_word_count:
  "length (filter (opens_word state0) (contexts s)) + (if s \<noteq> [] \<and> \<not> separates (hd s) \<and> state0 \<noteq> 0 then 1 else 0) =
     word_count s"
proof (cases s)
  case (Cons c cs)
  have "filter (opens_word state0) (zip (map Some s) cs) =
      filter (\<lambda>(p, c). \<not> separates c \<and> (case p of None \<Rightarrow> True | Some q \<Rightarrow> separates q)) (zip (map Some s) cs)"
    by (rule filter_cong) (auto simp: opens_word_def split: option.splits dest: set_zip_leftD)
  then show ?thesis by (simp add: Cons contexts_def word_count_def opens_word_def)
qed (simp add: contexts_def word_count_def)

lemma parser_value:
  "parser state0 s \<lparr>letters = 0, nwords = 1, sentences = 0\<rparr> =
     \<lparr>letters = sat (length (filter isalpha s)),
      nwords = sat (Suc (length (filter (opens_word state0) (contexts s)))),
      sentences = sat (sentence_count s)\<rparr>"
proof -
  have init: "\<lparr>letters = 0, nwords = 1, sentences = 0\<rparr> = \<lparr>letters = sat 0, nwords = sat 1, sentences = sat 0\<rparr>"
    by (simp add: sat_def)
  show ?thesis
    unfolding parser_def init
    using parser_loop_counts [where state = state0 and prev = None and ?state0.0 = state0 and s = s and a = 0 and b = 1 and d = 0]
    by (simp add: contexts_def sentence_count_def closes_sentence_eq)
qed

subsection \<open>Rounding\<close>

lemma c_round_near: "\<bar>of_int (c_round x) - x\<bar> \<le> 1 / 2"
proof -
  have f: "of_int \<lfloor>y + 1 / 2\<rfloor> - y \<le> 1 / 2" "y - of_int \<lfloor>y + 1 / 2\<rfloor> \<le> 1 / 2" for y :: rat
    using floor_correct [of "y + 1 / 2"] by linarith+
  from f [of x] f [of "- x"] show ?thesis unfolding c_round_def abs_le_iff by (cases "0 \<le> x") auto
qed

text \<open>Rounding to the nearest \<open>double\<close>: a relative error of at most \<open>2^-53\<close>.\<close>

definition nearest_double :: "(rat \<Rightarrow> rat) \<Rightarrow> bool" where
  "nearest_double fl \<longleftrightarrow> (\<forall>x. \<bar>fl x - x\<bar> \<le> \<bar>x\<bar> / 2 ^ 53)"

definition near :: "rat \<Rightarrow> rat \<Rightarrow> rat \<Rightarrow> bool" where
  "near p u v \<longleftrightarrow> \<bar>u - v\<bar> \<le> p * \<bar>v\<bar>"

lemma near_mult:
  assumes fl: "nearest_double fl" and uv: "near p u v" and p: "0 \<le> p" "p \<le> 1"
  shows "near (p + 2 / 2 ^ 53) (fl (u * c)) (v * c)"
proof -
  have "\<bar>u\<bar> \<le> (1 + p) * \<bar>v\<bar>" using uv abs_triangle_ineq [of "u - v" v] by (simp add: near_def algebra_simps)
  also have "\<dots> \<le> 2 * \<bar>v\<bar>" using p by (intro mult_right_mono) simp_all
  finally have u: "\<bar>u * c\<bar> \<le> 2 * \<bar>v * c\<bar>" by (simp add: abs_mult mult_right_mono flip: mult.assoc)
  have "\<bar>u * c - v * c\<bar> = \<bar>u - v\<bar> * \<bar>c\<bar>" by (simp add: abs_mult flip: left_diff_distrib)
  also have "\<dots> \<le> p * \<bar>v\<bar> * \<bar>c\<bar>" using uv by (simp add: near_def mult_right_mono)
  finally have "\<bar>u * c - v * c\<bar> \<le> p * \<bar>v * c\<bar>" by (simp add: abs_mult)
  moreover have "\<bar>fl (u * c) - u * c\<bar> \<le> \<bar>u * c\<bar> / 2 ^ 53" using fl by (simp add: nearest_double_def)
  ultimately have "\<bar>fl (u * c) - v * c\<bar> \<le> \<bar>u * c\<bar> / 2 ^ 53 + p * \<bar>v * c\<bar>" by linarith
  also have "\<dots> \<le> (2 * \<bar>v * c\<bar>) / 2 ^ 53 + p * \<bar>v * c\<bar>" using u by (simp add: divide_right_mono)
  finally show ?thesis by (simp add: near_def algebra_simps)
qed

text \<open>A constant multiplied by a counter and 100 and divided by the number of words.\<close>

lemma near_ratio:
  assumes fl: "nearest_double fl"
  shows "near (7 / 2 ^ 53) (fl (fl (fl (fl c * l) * 100) / w)) (c * l * 100 / w)"
proof -
  have "near (1 / 2 ^ 53) (fl c) c" using fl by (simp add: near_def nearest_double_def)
  from near_mult [OF fl this, of l] have "near (3 / 2 ^ 53) (fl (fl c * l)) (c * l)" by simp
  from near_mult [OF fl this, of 100] have "near (5 / 2 ^ 53) (fl (fl (fl c * l) * 100)) (c * l * 100)" by simp
  from near_mult [OF fl this, of "1 / w"] show ?thesis by simp
qed

lemma near_bound:
  assumes "near (7 / 2 ^ 53) u v" and "0 \<le> v" and "v \<le> 600000000"
  shows "\<bar>u - v\<bar> \<le> 1 / 1000000" and "\<bar>u\<bar> \<le> 600000001"
proof -
  have "\<bar>u - v\<bar> \<le> 7 / 2 ^ 53 * v" using assms(1,2) by (simp add: near_def)
  also have "\<dots> \<le> 7 / 2 ^ 53 * 600000000" using assms(3) by (intro mult_left_mono) simp_all
  also have "\<dots> \<le> 1 / 1000000" by simp
  finally show b: "\<bar>u - v\<bar> \<le> 1 / 1000000" .
  show "\<bar>u\<bar> \<le> 600000001" using b assms(2,3) by (simp add: abs_if split: if_splits)
qed

lemma ratio_bound:
  assumes "c \<le> 3 / 10" "0 \<le> c" "l \<le> 2 ^ 24" "1 \<le> w"
  shows "0 \<le> c * of_nat l * 100 / of_nat w \<and> c * of_nat l * 100 / of_nat w \<le> (600000000 :: rat)"
proof -
  have l: "(of_nat l :: rat) \<le> 2 ^ 24" using assms(3) of_nat_mono [of l "2 ^ 24", where ?'a = rat] by simp
  have w: "(1 :: rat) \<le> of_nat w" using assms(4) by simp
  have "c * of_nat l * 100 / of_nat w \<le> c * of_nat l * 100 / 1"
    using assms(2) w by (intro divide_left_mono) simp_all
  then have "c * of_nat l * 100 / of_nat w \<le> c * of_nat l * 100" by simp
  also have "\<dots> \<le> 3 / 10 * 2 ^ 24 * 100" using assms l by (intro mult_right_mono mult_mono) simp_all
  finally show ?thesis using assms(2) by simp
qed

text \<open>The exact value of the formula.\<close>

definition coleman_liau :: "counts \<Rightarrow> rat" where
  "coleman_liau k =
     588 / 10000 * of_nat (letters k) * 100 / of_nat (nwords k) -
     296 / 1000 * of_nat (sentences k) * 100 / of_nat (nwords k) - 158 / 10"

lemma index_value_near:
  assumes fl: "nearest_double fl" and k: "letters k \<le> 2 ^ 24" "sentences k \<le> 2 ^ 24" "1 \<le> nwords k"
  shows "\<bar>index_value fl k - coleman_liau k\<bar> \<le> 1 / 100000"
proof -
  define av bv where "av = 588 / 10000 * of_nat (letters k) * 100 / (of_nat (nwords k) :: rat)"
    and "bv = 296 / 1000 * of_nat (sentences k) * 100 / (of_nat (nwords k) :: rat)"
  define a b where "a = fl (fl (fl (fl (588 / 10000) * of_nat (letters k)) * 100) / of_nat (nwords k))"
    and "b = fl (fl (fl (fl (296 / 1000) * of_nat (sentences k)) * 100) / of_nat (nwords k))"
  have bd: "0 \<le> av" "av \<le> 600000000" "0 \<le> bv" "bv \<le> 600000000"
    using ratio_bound [of "588 / 10000" "letters k" "nwords k"] ratio_bound [of "296 / 1000" "sentences k" "nwords k"] k
    by (simp_all add: av_def bv_def)
  have "near (7 / 2 ^ 53) a av" "near (7 / 2 ^ 53) b bv"
    unfolding a_def av_def b_def bv_def by (rule near_ratio [OF fl])+
  then have ab: "\<bar>a - av\<bar> \<le> 1 / 1000000" "\<bar>b - bv\<bar> \<le> 1 / 1000000" "\<bar>a\<bar> \<le> 600000001" "\<bar>b\<bar> \<le> 600000001"
    using near_bound bd by blast+
  have small: "\<bar>fl x - x\<bar> \<le> 1 / 1000000" if "\<bar>x\<bar> \<le> 2000000000" for x
  proof -
    have "\<bar>fl x - x\<bar> \<le> \<bar>x\<bar> / 2 ^ 53" using fl by (simp add: nearest_double_def)
    also have "\<dots> \<le> 2000000000 / 2 ^ 53" using that by (intro divide_right_mono) simp_all
    also have "\<dots> \<le> 1 / 1000000" by simp
    finally show ?thesis .
  qed
  have c: "\<bar>fl (158 / 10) - 158 / 10\<bar> \<le> 1 / 1000000" by (rule small) simp
  have "\<bar>a - b\<bar> \<le> 2000000000" using ab(3,4) by linarith
  then have d: "\<bar>fl (a - b) - (a - b)\<bar> \<le> 1 / 1000000" by (rule small)
  have "\<bar>fl (a - b) - fl (158 / 10)\<bar> \<le> 2000000000" using ab(3,4) c d by linarith
  then have "\<bar>fl (fl (a - b) - fl (158 / 10)) - (fl (a - b) - fl (158 / 10))\<bar> \<le> 1 / 1000000" by (rule small)
  then have "\<bar>fl (fl (a - b) - fl (158 / 10)) - (av - bv - 158 / 10)\<bar> \<le> 1 / 100000"
    using ab(1,2) c d by linarith
  moreover have "index_value fl k = fl (fl (a - b) - fl (158 / 10))"
    by (simp add: index_value_def Let_def a_def b_def)
  moreover have "coleman_liau k = av - bv - 158 / 10" by (simp add: coleman_liau_def av_def bv_def)
  ultimately show ?thesis by simp
qed

subsection \<open>Properties\<close>

text \<open>
  (C24) The counters: for every text and whatever the uninitialised \<open>state\<close> holds, \<open>parser\<close> counts the
  letters, and the sentence marks that differ from the character before them, exactly, up to the
  \<open>2^24\<close> at which a \<open>float\<close> stops growing.  The number of words is right exactly when the text starts
  with a word and \<open>state\<close> happens not to be 0; otherwise it is one too many.
\<close>

theorem parser_counts:
  "parser state0 s \<lparr>letters = 0, nwords = 1, sentences = 0\<rparr> =
     \<lparr>letters = sat (length (filter isalpha s)),
      nwords = sat (word_count s + (if s = [] \<or> separates (hd s) \<or> state0 = 0 then 1 else 0)),
      sentences = sat (sentence_count s)\<rparr>"
proof -
  have "Suc (length (filter (opens_word state0) (contexts s))) =
      word_count s + (if s = [] \<or> separates (hd s) \<or> state0 = 0 then 1 else 0)"
    using opens_word_count [of state0 s] by (auto split: if_splits)
  then show ?thesis by (simp only: parser_value)
qed



end
