(* ===== verification/Shell.thy ===== *)
theory Shell
  imports C_Prelude
begin

text \<open>
  \<^verbatim>\<open>src/projects/ipc/mini-shell/main.c\<close>: the mini shell.  \<open>readline\<close> and \<open>tokenize\<close> are modelled with
  the sizes of their heap buffers, so that a store outside the allocation is an outcome of its own;
  \<open>execute\<close> dispatches to the built-ins or forks; \<open>interpret\<close> is the read, parse, execute loop.  What
  the operating system decides is a record of parameters: which allocations succeed, what \<open>chdir\<close> and
  \<open>getcwd\<close> answer, whether \<open>fork\<close> succeeds and which statuses \<open>waitpid\<close> reports for a child.
\<close>

definition BUFFER_SIZE :: int where "BUFFER_SIZE = 1024"
definition STRTOK_BUF :: int where "STRTOK_BUF = 64"
definition PTR_SIZE :: int where "PTR_SIZE = 8"

definition strtok_delim :: "char \<Rightarrow> bool" where
  "strtok_delim c \<longleftrightarrow> c = SP \<or> c = CHR 0x09 \<or> c = CHR 0x0D \<or> c = NL"

subsection \<open>State and environment\<close>

datatype disposition = SIG_DFL | SIG_IGN

datatype wait_status = WExited int | WSignaled int | WStopped int

datatype fork_result = ForkFailed | Forked "wait_status list"

datatype errno_val = ERANGE | OtherErrno

datatype sh_event =
    ShIo io
  | ShNewline                                           \<comment> \<open>\<open>write(STDOUT_FILENO, "\n", 1)\<close>\<close>
  | ShSpawn disposition disposition "string list"       \<comment> \<open>the child's signals and its \<open>execvp\<close>\<close>

record shell =
  inp :: string                  \<comment> \<open>what is left of the standard input\<close>
  cwd :: "string option"         \<comment> \<open>\<open>None\<close>: the directory was removed\<close>
  errno :: errno_val
  sigint :: disposition
  sigquit :: disposition
  log :: "sh_event list"

record sh_env =
  alloc_ok :: "int \<Rightarrow> bool"                              \<comment> \<open>\<open>malloc\<close>/\<open>realloc\<close> of that size\<close>
  chdir :: "string option \<Rightarrow> string \<Rightarrow> string option"    \<comment> \<open>\<open>None\<close>: failure\<close>
  fork :: "string list \<Rightarrow> fork_result"

definition emit :: "sh_event list \<Rightarrow> shell \<Rightarrow> shell" where
  "emit es st = st\<lparr>log := log st @ es\<rparr>"

subsection \<open>Reading a line\<close>

text \<open>
  The loop of \<open>readline\<close>: \<open>buf\<close> is \<open>buffer[0..position)\<close>, \<open>bsize\<close> is \<open>buffer_size\<close>; the result is the
  line and the rest of the input.
\<close>

fun readline_loop :: "(int \<Rightarrow> bool) \<Rightarrow> int \<Rightarrow> string \<Rightarrow> string \<Rightarrow> (string \<times> string) outcome" where
  "readline_loop ok bsize buf [] =
     (if int (length buf) < bsize then Returns (buf, []) else Undefined OutOfBounds)"
| "readline_loop ok bsize buf (c # cs) =
     (if \<not> int (length buf) < bsize then Undefined OutOfBounds
      else if c = NL then Returns (buf, cs)
      else if bsize \<le> int (length buf) + 1 then
        (if INT_MAX < bsize + BUFFER_SIZE then Undefined SignedOverflow
         else if \<not> ok (bsize + BUFFER_SIZE) then Exits [Perror ''realloc''] 1
         else readline_loop ok (bsize + BUFFER_SIZE) (buf @ [c]) cs)
      else readline_loop ok bsize (buf @ [c]) cs)"

definition readline :: "(int \<Rightarrow> bool) \<Rightarrow> string \<Rightarrow> (string \<times> string) outcome" where
  "readline ok stdin =
     (if \<not> ok BUFFER_SIZE then Exits [Perror ''malloc''] 1
      else readline_loop ok BUFFER_SIZE [] stdin)"

subsection \<open>Splitting it into tokens\<close>

text \<open>One call of \<open>strtok\<close>: the next token and the rest of the line, \<open>None\<close> when none is left.\<close>

definition strtok :: "string \<Rightarrow> (string \<times> string) option" where
  "strtok s =
     (let t = dropWhile strtok_delim s
      in if t = [] then None
         else Some (takeWhile (\<lambda>c. \<not> strtok_delim c) t, drop 1 (dropWhile (\<lambda>c. \<not> strtok_delim c) t)))"

lemma strtok_shrinks: "strtok s = Some (tok, rest) \<Longrightarrow> length rest < length s"
proof -
  assume a: "strtok s = Some (tok, rest)"
  let ?t = "dropWhile strtok_delim s"
  from a have t: "?t \<noteq> []" and r: "rest = drop 1 (dropWhile (\<lambda>c. \<not> strtok_delim c) ?t)"
    by (auto simp: strtok_def Let_def split: if_splits)
  have "length (dropWhile (\<lambda>c. \<not> strtok_delim c) ?t) \<le> length ?t" by (rule length_dropWhile_le)
  moreover have "length ?t \<le> length s" by (rule length_dropWhile_le)
  moreover have "0 < length ?t" using t by (simp only: length_greater_0_conv not_False_eq_True)
  ultimately show ?thesis unfolding r length_drop by linarith
qed

text \<open>
  The loop of \<open>tokenize\<close>.  \<open>bsize\<close> is \<open>buffer_size\<close>, which is also the number of bytes of the
  allocation (\<open>malloc(STRTOK_BUF)\<close>, \<open>realloc(tokens, buffer_size)\<close>); a store to \<open>tokens[position]\<close> is
  in bounds when the eight bytes of the pointer fit.
\<close>

definition slot_ok :: "int \<Rightarrow> nat \<Rightarrow> bool" where
  "slot_ok bsize position \<longleftrightarrow> PTR_SIZE * (int position + 1) \<le> bsize"

function tokenize_loop :: "(int \<Rightarrow> bool) \<Rightarrow> int \<Rightarrow> string list \<Rightarrow> string \<Rightarrow> string list outcome" where
  "tokenize_loop ok bsize tokens rest =
     (case strtok rest of
        None \<Rightarrow> if slot_ok bsize (length tokens) then Returns tokens else Undefined OutOfBounds
      | Some (token, rest') \<Rightarrow>
          if \<not> slot_ok bsize (length tokens) then Undefined OutOfBounds
          else if bsize \<le> int (length tokens) + 1 then
            (if INT_MAX < bsize + STRTOK_BUF then Undefined SignedOverflow
             else if \<not> ok (bsize + STRTOK_BUF) then Exits [Perror ''realloc''] 1
             else tokenize_loop ok (bsize + STRTOK_BUF) (tokens @ [token]) rest')
          else tokenize_loop ok bsize (tokens @ [token]) rest')"
  by pat_completeness auto
termination
  by (relation "measure (\<lambda>(_, _, _, rest). length rest)") (auto dest: strtok_shrinks)

declare tokenize_loop.simps [simp del]

definition tokenize :: "(int \<Rightarrow> bool) \<Rightarrow> string \<Rightarrow> string list outcome" where
  "tokenize ok line =
     (if \<not> ok STRTOK_BUF then Exits [Perror ''Malloc''] 1
      else tokenize_loop ok STRTOK_BUF [] (cstr line))"

subsection \<open>Running a program\<close>

text \<open>
  The parent's wait loop: it goes on while the reported status is neither an exit nor a termination
  by a signal.
\<close>

fun wait_child :: "wait_status list \<Rightarrow> wait_status outcome" where
  "wait_child [] = Blocks"
| "wait_child (WStopped s # ws) = wait_child ws"
| "wait_child (w # ws) = Returns w"

definition is_signaled :: "wait_status \<Rightarrow> bool" where
  "is_signaled w = (case w of WSignaled _ \<Rightarrow> True | _ \<Rightarrow> False)"

text \<open>
  \<open>fork\<close> copies the dispositions; the child sets both signals back to the default before \<open>execvp\<close>.
  The result is the state and the value \<open>bin_exec\<close> returns.
\<close>

definition bin_exec :: "sh_env \<Rightarrow> string list \<Rightarrow> shell \<Rightarrow> (shell \<times> int) outcome" where
  "bin_exec env args st =
     (case fork env args of
        ForkFailed \<Rightarrow> Returns (emit [ShIo (Perror ''fork'')] (st\<lparr>errno := OtherErrno\<rparr>), 1)
      | Forked statuses \<Rightarrow>
          (let child = st\<lparr>sigint := SIG_DFL, sigquit := SIG_DFL\<rparr>;
               st' = emit [ShSpawn (sigint child) (sigquit child) args] st
           in obind (wait_child statuses)
                (\<lambda>w. Returns (if is_signaled w then emit [ShNewline] st' else st', 1))))"

subsection \<open>Built-in commands\<close>

datatype builtin_fn = Builtin_cd | Builtin_help | Builtin_exit | Builtin_pwd

definition builtin :: "string list" where
  "builtin = [''cd'', ''help'', ''exit'', ''pwd'']"

definition builtin_func :: "builtin_fn list" where
  "builtin_func = [Builtin_cd, Builtin_help, Builtin_exit, Builtin_pwd]"

definition builtin_cd :: "sh_env \<Rightarrow> string list \<Rightarrow> shell \<Rightarrow> shell \<times> int" where
  "builtin_cd env args st =
     (if length args < 2 then (emit [ShIo (Err (''No argument'' @ [NL]))] st, 1)
      else (case chdir env (cwd st) (args ! 1) of
              None \<Rightarrow> (emit [ShIo (Perror ''chdir'')] (st\<lparr>errno := OtherErrno\<rparr>), 1)
            | Some d \<Rightarrow> (st\<lparr>cwd := Some d\<rparr>, 1)))"

definition builtin_help :: "shell \<Rightarrow> shell \<times> int" where
  "builtin_help st =
     (emit (ShIo (Out (''Built in commands:'' @ [NL])) #
            map (\<lambda>b. ShIo (Out (''    '' @ b @ [NL]))) builtin) st, 1)"

definition builtin_exit :: "shell \<Rightarrow> shell \<times> int" where
  "builtin_exit st = (st, 0)"

text \<open>
  \<open>getcwd(buffer, size)\<close>: the string it stores, or NULL, and the value of \<open>errno\<close> afterwards; success
  leaves \<open>errno\<close> as it was.
\<close>

definition getcwd :: "string option \<Rightarrow> int \<Rightarrow> errno_val \<Rightarrow> string option \<times> errno_val" where
  "getcwd dir bsize e =
     (case dir of
        None \<Rightarrow> (None, OtherErrno)
      | Some d \<Rightarrow> if bsize < int (length d) + 1 then (None, ERANGE) else (Some d, e))"

text \<open>The \<open>do \<dots> while (errno == ERANGE)\<close> loop of \<open>builtin_pwd\<close>; the result is the string printed.\<close>

function pwd_loop :: "(int \<Rightarrow> bool) \<Rightarrow> string option \<Rightarrow> int \<Rightarrow> errno_val \<Rightarrow> (string \<times> errno_val) outcome" where
  "pwd_loop ok dir bsize e =
     (if INT_MAX < bsize + BUFFER_SIZE then Undefined SignedOverflow
      else if \<not> ok (bsize + BUFFER_SIZE) then Exits [Perror ''realloc''] 1
      else (case getcwd dir (bsize + BUFFER_SIZE) e of
              (r, e') \<Rightarrow>
                if r = None \<and> e' \<noteq> ERANGE then Exits [Perror ''getcwd''] 1
                else if e' = ERANGE then pwd_loop ok dir (bsize + BUFFER_SIZE) e'
                else (case r of Some d \<Rightarrow> Returns (d, e') | None \<Rightarrow> Undefined UninitRead)))"
  by pat_completeness auto
termination
  by (relation "measure (\<lambda>(_, _, bsize, _). nat (INT_MAX - bsize))") (auto simp: BUFFER_SIZE_def)

declare pwd_loop.simps [simp del]

definition builtin_pwd :: "sh_env \<Rightarrow> shell \<Rightarrow> (shell \<times> int) outcome" where
  "builtin_pwd env st =
     (if \<not> alloc_ok env BUFFER_SIZE then Exits [Perror ''Malloc''] 1
      else
        (case getcwd (cwd st) BUFFER_SIZE (errno st) of
           (r, e) \<Rightarrow>
             obind
               (if r = None \<and> e = ERANGE then pwd_loop (alloc_ok env) (cwd st) BUFFER_SIZE e
                else (case r of Some d \<Rightarrow> Returns (d, e) | None \<Rightarrow> Undefined UninitRead))
               (\<lambda>(d, e'). Returns (emit [ShIo (Out (d @ [NL]))] (st\<lparr>errno := e'\<rparr>), 1))))"

text \<open>The call through the function pointer.\<close>

definition call_builtin ::
  "sh_env \<Rightarrow> builtin_fn \<Rightarrow> string list \<Rightarrow> shell \<Rightarrow> (shell \<times> int) outcome" where
  "call_builtin env f args st =
     (case f of
        Builtin_cd \<Rightarrow> Returns (builtin_cd env args st)
      | Builtin_help \<Rightarrow> Returns (builtin_help st)
      | Builtin_exit \<Rightarrow> Returns (builtin_exit st)
      | Builtin_pwd \<Rightarrow> builtin_pwd env st)"

subsection \<open>Dispatch and the main loop\<close>

text \<open>The \<open>for\<close> loop of \<open>execute\<close> over the two parallel arrays, from index \<open>i\<close>.\<close>

function find_builtin :: "string \<Rightarrow> nat \<Rightarrow> builtin_fn option" where
  "find_builtin name i =
     (if i < length builtin then
        (if name = builtin ! i then Some (builtin_func ! i) else find_builtin name (Suc i))
      else None)"
  by pat_completeness auto
termination
  by (relation "measure (\<lambda>(_, i). length builtin - i)") auto

declare find_builtin.simps [simp del]

definition execute :: "sh_env \<Rightarrow> string list \<Rightarrow> shell \<Rightarrow> (shell \<times> int) outcome" where
  "execute env args st =
     (case args of
        [] \<Rightarrow> Returns (st, 1)
      | name # _ \<Rightarrow>
          (case find_builtin name 0 of
             Some f \<Rightarrow> call_builtin env f args st
           | None \<Rightarrow> bin_exec env args st))"

text \<open>One turn of the \<open>do \<dots> while (status)\<close> loop.\<close>

definition shell_turn :: "sh_env \<Rightarrow> shell \<Rightarrow> (shell \<times> int) outcome" where
  "shell_turn env st =
     (let st0 = emit [ShIo (Out ''> '')] st in
      obind (readline (alloc_ok env) (inp st0)) (\<lambda>(line, rest).
      obind (tokenize (alloc_ok env) line) (\<lambda>args.
      execute env args (st0\<lparr>inp := rest\<rparr>))))"

text \<open>The loop with a bound on its turns; \<open>None\<close>: it is still running after \<open>n\<close> turns.\<close>

fun shell_loop :: "nat \<Rightarrow> sh_env \<Rightarrow> shell \<Rightarrow> shell outcome option" where
  "shell_loop 0 env st = None"
| "shell_loop (Suc n) env st =
     (case shell_turn env st of
        Returns (st', status) \<Rightarrow> if status \<noteq> 0 then shell_loop n env st' else Some (Returns st')
      | Exits es k \<Rightarrow> Some (Exits es k)
      | Undefined u \<Rightarrow> Some (Undefined u)
      | Blocks \<Rightarrow> Some Blocks)"

definition interpret_shell :: "nat \<Rightarrow> sh_env \<Rightarrow> shell \<Rightarrow> shell outcome option" where
  "interpret_shell n env st = shell_loop n env (st\<lparr>sigint := SIG_IGN, sigquit := SIG_IGN\<rparr>)"

subsection \<open>readline\<close>

lemma readline_loop_safe:
  "int (length buf) < bsize \<Longrightarrow> readline_loop ok bsize buf s \<noteq> Undefined OutOfBounds"
  by (induction ok bsize buf s rule: readline_loop.induct) (auto simp: BUFFER_SIZE_def)

lemma readline_loop_line:
  "readline_loop ok bsize buf s = Returns (line, rest) \<Longrightarrow>
     line = buf @ takeWhile (\<lambda>c. c \<noteq> NL) s \<and> rest = drop 1 (dropWhile (\<lambda>c. c \<noteq> NL) s)"
  by (induction ok bsize buf s rule: readline_loop.induct) (auto split: if_splits)

lemma readline_loop_total:
  "(\<And>n. ok n) \<Longrightarrow> int (length buf) < bsize \<Longrightarrow> bsize \<le> int (length buf) + BUFFER_SIZE \<Longrightarrow>
   int (length buf + length (takeWhile (\<lambda>c. c \<noteq> NL) s)) + 2 * BUFFER_SIZE \<le> INT_MAX \<Longrightarrow>
     \<exists>r. readline_loop ok bsize buf s = Returns r"
  by (induction ok bsize buf s rule: readline_loop.induct) (auto simp: BUFFER_SIZE_def)

subsection \<open>tokenize\<close>

text \<open>The reference: words separated by the delimiters, collected character by character.\<close>

fun words_from :: "string \<Rightarrow> string \<Rightarrow> string list" where
  "words_from cur [] = (if cur = [] then [] else [cur])"
| "words_from cur (c # cs) =
     (if strtok_delim c then (if cur = [] then [] else [cur]) @ words_from [] cs
      else words_from (cur @ [c]) cs)"

definition words :: "string \<Rightarrow> string list" where
  "words s = words_from [] s"

lemma words_from_word:
  "words_from cur s =
     (let w = cur @ takeWhile (\<lambda>c. \<not> strtok_delim c) s; r = dropWhile (\<lambda>c. \<not> strtok_delim c) s
      in (if w = [] then [] else [w]) @ words_from [] (drop 1 r))"
  by (induction cur s rule: words_from.induct) (auto simp: Let_def)

lemma words_skip: "words_from [] (dropWhile strtok_delim s) = words_from [] s"
  by (induction s) auto

lemma words_strtok:
  "words s = (case strtok s of None \<Rightarrow> [] | Some (tok, rest) \<Rightarrow> tok # words rest)"
proof -
  let ?t = "dropWhile strtok_delim s"
  have w: "words s = words_from [] ?t" by (simp add: words_def words_skip)
  show ?thesis
  proof (cases "?t = []")
    case True
    with w show ?thesis by (simp only: strtok_def Let_def) simp
  next
    case False
    then have "takeWhile (\<lambda>c. \<not> strtok_delim c) ?t \<noteq> []"
      using hd_dropWhile [OF False] by (cases ?t) auto
    with w False show ?thesis
      by (simp only: words_from_word [of "[]" ?t]) (simp add: strtok_def Let_def words_def)
  qed
qed

lemma tokenize_loop_words:
  "length tokens \<le> 8 \<Longrightarrow>
     tokenize_loop ok 64 tokens rest =
       (if length tokens + length (words rest) < 8 then Returns (tokens @ words rest)
        else Undefined OutOfBounds)"
proof (induction ok "64 :: int" tokens rest rule: tokenize_loop.induct)
  case (1 ok tokens rest)
  show ?case
  proof (cases "strtok rest")
    case None
    then show ?thesis using "1.prems"
      by (simp add: tokenize_loop.simps [of ok 64 tokens rest] words_strtok [of rest] slot_ok_def PTR_SIZE_def)
  next
    case (Some p)
    obtain tok rest' where p: "p = (tok, rest')" by (cases p)
    show ?thesis
    proof (cases "length tokens < 8")
      case True
      then have sl: "slot_ok 64 (length tokens)" and ng: "\<not> 64 \<le> int (length tokens) + 1"
        by (simp_all add: slot_ok_def PTR_SIZE_def)
      then have "tokenize_loop ok 64 tokens rest = tokenize_loop ok 64 (tokens @ [tok]) rest'"
        by (subst tokenize_loop.simps) (simp add: Some p)
      also have "\<dots> = (if length (tokens @ [tok]) + length (words rest') < 8
          then Returns ((tokens @ [tok]) @ words rest') else Undefined OutOfBounds)"
        by (rule "1.hyps"(2)) (use Some p sl ng True in simp_all)
      finally show ?thesis by (simp add: words_strtok [of rest] Some p)
    next
      case False
      with "1.prems" show ?thesis
        by (subst tokenize_loop.simps) (simp add: Some p words_strtok [of rest] slot_ok_def PTR_SIZE_def)
    qed
  qed
qed

lemma tokenize_words:
  "ok 64 \<Longrightarrow>
     tokenize ok line =
       (if length (words (cstr line)) < 8 then Returns (words (cstr line)) else Undefined OutOfBounds)"
  by (simp add: tokenize_def STRTOK_BUF_def tokenize_loop_words)

subsection \<open>pwd\<close>

lemma pwd_loop_never_returns: "pwd_loop ok dir bsize ERANGE \<noteq> Returns r"
proof (induction ok dir bsize "ERANGE" rule: pwd_loop.induct)
  case (1 ok dir bsize)
  show ?case
  proof (cases dir)
    case (Some d)
    with 1 show ?thesis
      by (subst pwd_loop.simps) (cases "bsize + BUFFER_SIZE < int (length d) + 1", auto simp: getcwd_def)
  qed (subst pwd_loop.simps, simp add: getcwd_def)
qed

lemma builtin_pwd_short:
  "alloc_ok env BUFFER_SIZE \<Longrightarrow> cwd st = Some d \<Longrightarrow> length d < 1024 \<Longrightarrow>
     builtin_pwd env st = Returns (emit [ShIo (Out (d @ [NL]))] st, 1)"
  by (simp add: builtin_pwd_def getcwd_def BUFFER_SIZE_def)

lemma builtin_pwd_long:
  "cwd st = Some d \<Longrightarrow> 1024 \<le> length d \<Longrightarrow> builtin_pwd env st \<noteq> Returns r"
  using pwd_loop_never_returns [of "alloc_ok env" "cwd st" BUFFER_SIZE]
  by (auto simp: builtin_pwd_def getcwd_def BUFFER_SIZE_def obind_Returns_iff)

subsection \<open>Dispatch\<close>

lemma find_builtin_eq:
  "find_builtin name 0 =
     (if name = ''cd'' then Some Builtin_cd else if name = ''help'' then Some Builtin_help
      else if name = ''exit'' then Some Builtin_exit else if name = ''pwd'' then Some Builtin_pwd
      else None)"
  by (simp add: find_builtin.simps builtin_def builtin_func_def numeral_eq_Suc)

lemma bin_exec_returns:
  "bin_exec env args st = Returns (st', n) \<Longrightarrow>
     n = 1 \<and> sigint st' = sigint st \<and> sigquit st' = sigquit st \<and> inp st' = inp st \<and> cwd st' = cwd st"
  by (auto simp: bin_exec_def Let_def obind_Returns_iff emit_def split: fork_result.splits if_splits)

lemma call_builtin_returns:
  "call_builtin env f args st = Returns (st', n) \<Longrightarrow>
     n = (if f = Builtin_exit then 0 else 1) \<and> sigint st' = sigint st \<and> sigquit st' = sigquit st \<and>
     inp st' = inp st"
  by (auto simp: call_builtin_def builtin_cd_def builtin_help_def builtin_exit_def builtin_pwd_def
      obind_Returns_iff emit_def split: builtin_fn.splits if_splits option.splits prod.splits)

lemma execute_returns:
  "execute env args st = Returns (st', n) \<Longrightarrow>
     n = (if args \<noteq> [] \<and> hd args = ''exit'' then 0 else 1) \<and>
     sigint st' = sigint st \<and> sigquit st' = sigquit st \<and> inp st' = inp st"
  by (auto simp: execute_def find_builtin_eq dest!: bin_exec_returns call_builtin_returns
      split: list.splits option.splits if_splits)

subsection \<open>The loop\<close>

lemma shell_turn_returns:
  assumes "shell_turn env st = Returns (st', n)"
  defines "line \<equiv> takeWhile (\<lambda>c. c \<noteq> NL) (inp st)"
  shows "inp st' = drop 1 (dropWhile (\<lambda>c. c \<noteq> NL) (inp st)) \<and>
    sigint st' = sigint st \<and> sigquit st' = sigquit st \<and>
    (n = 0 \<longleftrightarrow> words (cstr line) \<noteq> [] \<and> hd (words (cstr line)) = ''exit'')"
proof -
  from assms(1) obtain l rest args where
    r: "readline (alloc_ok env) (inp st) = Returns (l, rest)" and
    t: "tokenize (alloc_ok env) l = Returns args" and
    e: "execute env args (emit [ShIo (Out ''> '')] st\<lparr>inp := rest\<rparr>) = Returns (st', n)"
    by (auto simp: shell_turn_def Let_def obind_Returns_iff emit_def)
  from r have "l = line" "rest = drop 1 (dropWhile (\<lambda>c. c \<noteq> NL) (inp st))"
    by (auto simp: readline_def line_def dest!: readline_loop_line split: if_splits)
  moreover from t have "alloc_ok env 64" by (auto simp: tokenize_def STRTOK_BUF_def split: if_splits)
  ultimately have "args = words (cstr line)"
    using t by (auto simp: tokenize_words split: if_splits)
  with execute_returns [OF e] \<open>rest = _\<close> show ?thesis by (auto simp: emit_def split: if_splits)
qed

lemma shell_turn_eof:
  assumes "alloc_ok env BUFFER_SIZE" and "alloc_ok env STRTOK_BUF" and "inp st = []"
  shows "\<exists>st'. shell_turn env st = Returns (st', 1) \<and> inp st' = []"
proof -
  have "readline (alloc_ok env) [] = Returns ([], [])"
    using assms by (simp add: readline_def BUFFER_SIZE_def)
  moreover have "tokenize (alloc_ok env) [] = Returns []"
    using assms(2) by (simp add: tokenize_words STRTOK_BUF_def cstr_def words_def)
  ultimately show ?thesis
    using assms(3) by (simp add: shell_turn_def Let_def emit_def execute_def)
qed

lemma shell_loop_eof:
  "alloc_ok env BUFFER_SIZE \<Longrightarrow> alloc_ok env STRTOK_BUF \<Longrightarrow> inp st = [] \<Longrightarrow> shell_loop n env st = None"
proof (induction n arbitrary: st)
  case (Suc n)
  then obtain st' where "shell_turn env st = Returns (st', 1)" "inp st' = []"
    using shell_turn_eof by blast
  with Suc show ?case by simp
qed simp

text \<open>
  An environment in which nothing goes wrong: memory is available, directories have names that fit the
  buffer of \<open>pwd\<close>, and every child ends.
\<close>

definition child_ends :: "fork_result \<Rightarrow> bool" where
  "child_ends f = (case f of ForkFailed \<Rightarrow> True | Forked ws \<Rightarrow> list_ex (\<lambda>w. case w of WStopped _ \<Rightarrow> False | _ \<Rightarrow> True) ws)"

definition calm_env :: "sh_env \<Rightarrow> bool" where
  "calm_env env \<longleftrightarrow>
     (\<forall>n. alloc_ok env n) \<and> (\<forall>c a d. chdir env c a = Some d \<longrightarrow> length d < 1024) \<and>
     (\<forall>args. child_ends (fork env args))"

definition short_cwd :: "shell \<Rightarrow> bool" where
  "short_cwd st = (case cwd st of None \<Rightarrow> False | Some d \<Rightarrow> length d < 1024)"

lemma wait_child_total: "child_ends (Forked ws) \<Longrightarrow> \<exists>w. wait_child ws = Returns w"
  by (induction ws rule: wait_child.induct) (auto simp: child_ends_def)

lemma bin_exec_total:
  assumes "calm_env env"
  shows "\<exists>st'. bin_exec env args st = Returns (st', 1) \<and> cwd st' = cwd st"
proof (cases "fork env args")
  case (Forked ws)
  moreover have "child_ends (fork env args)" using assms by (simp add: calm_env_def)
  ultimately obtain w where "wait_child ws = Returns w" using wait_child_total by metis
  with Forked show ?thesis by (simp add: bin_exec_def Let_def emit_def)
qed (simp add: bin_exec_def emit_def)

lemma call_builtin_total:
  assumes "calm_env env" and "short_cwd st"
  shows "\<exists>st' n. call_builtin env f args st = Returns (st', n) \<and> short_cwd st'"
proof (cases f)
  case Builtin_cd
  with assms show ?thesis
    by (auto simp: call_builtin_def builtin_cd_def emit_def short_cwd_def calm_env_def split: option.splits)
next
  case Builtin_pwd
  obtain d where d: "cwd st = Some d" "length d < 1024" using assms(2) by (auto simp: short_cwd_def split: option.splits)
  have "builtin_pwd env st = Returns (emit [ShIo (Out (d @ [NL]))] st, 1)"
    using assms(1) d by (intro builtin_pwd_short) (auto simp: calm_env_def)
  with Builtin_pwd d show ?thesis by (simp add: call_builtin_def short_cwd_def emit_def)
qed (use assms in \<open>auto simp: call_builtin_def builtin_help_def builtin_exit_def emit_def short_cwd_def\<close>)

lemma execute_total:
  assumes "calm_env env" and "short_cwd st"
  shows "\<exists>st' n. execute env args st = Returns (st', n) \<and> short_cwd st'"
proof (cases args)
  case (Cons name rest)
  show ?thesis
  proof (cases "find_builtin name 0")
    case None
    with Cons assms bin_exec_total [OF assms(1), of args st] show ?thesis by (auto simp: execute_def short_cwd_def)
  next
    case (Some f)
    with Cons call_builtin_total [OF assms, of f args] show ?thesis by (simp add: execute_def)
  qed
qed (use assms in \<open>simp add: execute_def\<close>)

lemma shell_turn_total:
  assumes "calm_env env" and "short_cwd st" and "length (words (cstr (takeWhile (\<lambda>c. c \<noteq> NL) (inp st)))) < 8"
    and "int (length (inp st)) + 2 * BUFFER_SIZE \<le> INT_MAX"
  shows "\<exists>st' n. shell_turn env st = Returns (st', n) \<and> short_cwd st'"
proof -
  have ok: "alloc_ok env n" for n using assms(1) by (simp add: calm_env_def)
  have "length (takeWhile (\<lambda>c. c \<noteq> NL) (inp st)) \<le> length (inp st)" by (rule length_takeWhile_le)
  then have "\<exists>r. readline_loop (alloc_ok env) BUFFER_SIZE [] (inp st) = Returns r"
    using assms(4) ok by (intro readline_loop_total) (auto simp: BUFFER_SIZE_def)
  then obtain line rest where r: "readline_loop (alloc_ok env) BUFFER_SIZE [] (inp st) = Returns (line, rest)" by auto
  then have "line = takeWhile (\<lambda>c. c \<noteq> NL) (inp st)" by (auto dest: readline_loop_line)
  then have "tokenize (alloc_ok env) line = Returns (words (cstr line))" using assms(3) ok by (simp add: tokenize_words)
  moreover have "readline (alloc_ok env) (inp st) = Returns (line, rest)" using r ok by (simp add: readline_def)
  moreover have "short_cwd (emit [ShIo (Out ''> '')] st\<lparr>inp := rest\<rparr>)" using assms(2) by (simp add: short_cwd_def emit_def)
  ultimately show ?thesis
    using execute_total [OF assms(1)] by (simp add: shell_turn_def Let_def emit_def)
qed

text \<open>The lines of the input; the last one may lack its newline.\<close>

function input_lines :: "string \<Rightarrow> string list" where
  "input_lines s =
     (if s = [] then [] else takeWhile (\<lambda>c. c \<noteq> NL) s # input_lines (drop 1 (dropWhile (\<lambda>c. c \<noteq> NL) s)))"
  by pat_completeness auto
termination
proof (relation "measure length")
  fix s :: string
  assume "s \<noteq> []"
  then show "(drop 1 (dropWhile (\<lambda>c. c \<noteq> NL) s), s) \<in> measure length"
    using length_dropWhile_le [of "\<lambda>c. c \<noteq> NL" s]
    by (cases "dropWhile (\<lambda>c. c \<noteq> NL) s") (simp_all del: dropWhile_eq_Nil_conv)
qed simp

declare input_lines.simps [simp del]

definition is_exit :: "string \<Rightarrow> bool" where
  "is_exit line \<longleftrightarrow> (case words (cstr line) of [] \<Rightarrow> False | w # _ \<Rightarrow> w = ''exit'')"

text \<open>The loop over all lines: it ends with the first \<open>exit\<close>, and without one it does not end.\<close>

definition ends_at_exit :: "sh_env \<Rightarrow> shell \<Rightarrow> string list \<Rightarrow> bool" where
  "ends_at_exit env st lines \<longleftrightarrow>
     (if \<exists>line \<in> set lines. is_exit line
      then \<exists>n st'. n \<le> length lines \<and> shell_loop n env st = Some (Returns st')
      else \<forall>n. shell_loop n env st = None)"

lemma ends_at_exit_Cons:
  assumes turn: "shell_turn env st = Returns (st1, n)" and n: "n = 0 \<longleftrightarrow> is_exit line"
    and rest: "ends_at_exit env st1 lines"
  shows "ends_at_exit env st (line # lines)"
proof (cases "is_exit line")
  case True
  then have "shell_loop (Suc 0) env st = Some (Returns st1)" using turn n by simp
  with True show ?thesis unfolding ends_at_exit_def by (auto intro!: exI [of _ "Suc 0"])
next
  case False
  then have step: "shell_loop (Suc m) env st = shell_loop m env st1" for m using turn n by simp
  show ?thesis
  proof (cases "\<exists>line \<in> set lines. is_exit line")
    case True
    then obtain m st' where "m \<le> length lines" "shell_loop m env st1 = Some (Returns st')"
      using rest unfolding ends_at_exit_def by auto
    with True step [of m] show ?thesis unfolding ends_at_exit_def by (auto intro!: exI [of _ "Suc m"])
  next
    case none: False
    then have "shell_loop m env st = None" for m using rest step unfolding ends_at_exit_def by (cases m) auto
    with none False show ?thesis unfolding ends_at_exit_def by simp
  qed
qed

lemma shell_loop_lines:
  assumes "calm_env env" and "short_cwd st" and "\<forall>line \<in> set (input_lines (inp st)). length (words (cstr line)) < 8"
    and "int (length (inp st)) + 2 * BUFFER_SIZE \<le> INT_MAX"
  shows "ends_at_exit env st (input_lines (inp st))"
  using assms
proof (induction "inp st" arbitrary: st rule: input_lines.induct)
  case 1
  have alloc: "alloc_ok env BUFFER_SIZE" "alloc_ok env STRTOK_BUF" using "1.prems"(1) by (simp_all add: calm_env_def)
  show ?case
  proof (cases "inp st = []")
    case True
    then show ?thesis using shell_loop_eof [OF alloc True] by (simp add: ends_at_exit_def input_lines.simps)
  next
    case False
    let ?line = "takeWhile (\<lambda>c. c \<noteq> NL) (inp st)" and ?rest = "drop 1 (dropWhile (\<lambda>c. c \<noteq> NL) (inp st))"
    have lines: "input_lines (inp st) = ?line # input_lines ?rest" using False by (simp add: input_lines.simps [of "inp st"])
    have few: "length (words (cstr ?line)) < 8" using "1.prems"(3) lines by simp
    obtain st1 n where turn: "shell_turn env st = Returns (st1, n)" and cwd: "short_cwd st1"
      using shell_turn_total [OF "1.prems"(1,2) few "1.prems"(4)] by blast
    have st1: "inp st1 = ?rest" "n = 0 \<longleftrightarrow> is_exit ?line"
      using shell_turn_returns [OF turn] by (auto simp: is_exit_def split: list.splits)
    have "length ?rest \<le> length (inp st)" using length_dropWhile_le [of "\<lambda>c. c \<noteq> NL" "inp st"] by simp
    then have small: "int (length (inp st1)) + 2 * BUFFER_SIZE \<le> INT_MAX" using "1.prems"(4) unfolding st1(1) by linarith
    have "ends_at_exit env st1 (input_lines (inp st1))"
      by (rule "1.hyps") (use False st1(1) "1.prems"(1,3) cwd small lines in simp_all)
    then show ?thesis unfolding lines st1(1) by (rule ends_at_exit_Cons [OF turn st1(2)])
  qed
qed

text \<open>States the loop passes through, and the state it ends in.\<close>

inductive shell_reaches :: "sh_env \<Rightarrow> shell \<Rightarrow> shell \<Rightarrow> bool" for env st where
  at_start: "shell_reaches env st (st\<lparr>sigint := SIG_IGN, sigquit := SIG_IGN\<rparr>)"
| turn: "shell_reaches env st s \<Longrightarrow> shell_turn env s = Returns (s', n) \<Longrightarrow> n \<noteq> 0 \<Longrightarrow> shell_reaches env st s'"

lemma shell_reaches_ignores: "shell_reaches env st s \<Longrightarrow> sigint s = SIG_IGN \<and> sigquit s = SIG_IGN"
  by (induction rule: shell_reaches.induct) (auto dest: shell_turn_returns)

text \<open>The events one turn adds to the log.\<close>

fun spawn_default :: "sh_event \<Rightarrow> bool" where
  "spawn_default (ShSpawn a b args) = (a = SIG_DFL \<and> b = SIG_DFL)"
| "spawn_default e = True"

lemma execute_spawns:
  "execute env args st = Returns (st', n) \<Longrightarrow> list_all spawn_default (log st) \<Longrightarrow> list_all spawn_default (log st')"
  by (auto simp: execute_def find_builtin_eq bin_exec_def call_builtin_def builtin_cd_def builtin_help_def
      builtin_exit_def builtin_pwd_def emit_def obind_Returns_iff Let_def builtin_def
      split: list.splits if_splits fork_result.splits option.splits builtin_fn.splits prod.splits)

lemma shell_turn_spawns:
  "shell_turn env st = Returns (st', n) \<Longrightarrow> list_all spawn_default (log st) \<Longrightarrow> list_all spawn_default (log st')"
proof -
  assume a: "shell_turn env st = Returns (st', n)" and s: "list_all spawn_default (log st)"
  from a obtain rest args where
    "execute env args (emit [ShIo (Out ''> '')] st\<lparr>inp := rest\<rparr>) = Returns (st', n)"
    by (auto simp: shell_turn_def Let_def obind_Returns_iff emit_def)
  then show ?thesis by (rule execute_spawns) (use s in \<open>auto simp: emit_def\<close>)
qed

lemma shell_reaches_spawns:
  "shell_reaches env st s \<Longrightarrow> log st = [] \<Longrightarrow> list_all spawn_default (log s)"
  by (induction rule: shell_reaches.induct) (auto intro: shell_turn_spawns)

subsection \<open>Properties\<close>

text \<open>
  (C21) \<open>readline\<close> never stores outside its buffer, whatever the input and whichever allocations fail.
  When it returns, the line is the input up to the newline or the end of the input, and exactly
  that much is consumed; and it does return as long as the allocations succeed and the line stays
  clear of \<open>INT_MAX\<close>.
\<close>

theorem readline_correct:
  "readline ok s \<noteq> Undefined OutOfBounds \<and>
   (\<forall>line rest. readline ok s = Returns (line, rest) \<longrightarrow>
      line = takeWhile (\<lambda>c. c \<noteq> NL) s \<and> rest = drop 1 (dropWhile (\<lambda>c. c \<noteq> NL) s)) \<and>
   ((\<forall>n. ok n) \<and> int (length (takeWhile (\<lambda>c. c \<noteq> NL) s)) + 2 * BUFFER_SIZE \<le> INT_MAX \<longrightarrow>
      (\<exists>r. readline ok s = Returns r))"
proof (intro conjI)
  show "readline ok s \<noteq> Undefined OutOfBounds"
    using readline_loop_safe [of "[]" BUFFER_SIZE] by (simp add: readline_def BUFFER_SIZE_def)
  show "\<forall>line rest. readline ok s = Returns (line, rest) \<longrightarrow>
      line = takeWhile (\<lambda>c. c \<noteq> NL) s \<and> rest = drop 1 (dropWhile (\<lambda>c. c \<noteq> NL) s)"
    by (auto simp: readline_def dest!: readline_loop_line split: if_splits)
  show "(\<forall>n. ok n) \<and> int (length (takeWhile (\<lambda>c. c \<noteq> NL) s)) + 2 * BUFFER_SIZE \<le> INT_MAX \<longrightarrow>
      (\<exists>r. readline ok s = Returns r)"
    using readline_loop_total [of ok "[]" BUFFER_SIZE s] by (auto simp: readline_def BUFFER_SIZE_def)
qed

theorem readline_correct_witness:
  "readline (\<lambda>_. True) (''ls -l'' @ [NL] @ ''pwd'') = Returns (''ls -l'', ''pwd'')"
proof -
  obtain r where "readline (\<lambda>_. True) (''ls -l'' @ [NL] @ ''pwd'') = Returns r"
    using readline_correct [of "\<lambda>_. True" "''ls -l'' @ [NL] @ ''pwd''"]
    by (auto simp: BUFFER_SIZE_def INT_MAX_def)
  then show ?thesis
    using readline_correct [of "\<lambda>_. True" "''ls -l'' @ [NL] @ ''pwd''"] by (cases r) auto
qed

text \<open>
  (C11) \<open>tokenize\<close> splits a line into its words, but only up to seven of them: \<open>malloc(STRTOK_BUF)\<close>
  reserves 64 bytes, room for eight pointers including the final NULL, while the growth test
  compares the number of tokens with the number of bytes.  A line with eight or more words makes it
  store outside the allocation.
\<close>

theorem tokenize_capacity:
  assumes "ok STRTOK_BUF"
  shows "tokenize ok line =
    (if length (words (cstr line)) < 8 then Returns (words (cstr line)) else Undefined OutOfBounds)"
  using assms by (simp add: tokenize_words STRTOK_BUF_def)

theorem tokenize_capacity_witness:
  "tokenize (\<lambda>_. True) ''ls  -l /tmp'' = Returns [''ls'', ''-l'', ''/tmp''] \<and>
   tokenize (\<lambda>_. True) ''echo 1 2 3 4 5 6 7'' = Undefined OutOfBounds"
proof -
  have "words (cstr ''ls  -l /tmp'') = [''ls'', ''-l'', ''/tmp'']"
    and "length (words (cstr ''echo 1 2 3 4 5 6 7'')) = 8"
    by code_simp+
  then show ?thesis
    using tokenize_capacity [of "\<lambda>_. True" "''ls  -l /tmp''"]
      tokenize_capacity [of "\<lambda>_. True" "''echo 1 2 3 4 5 6 7''"] by simp
qed

text \<open>
  \<open>pwd\<close> prints the working directory when it fits the first buffer of 1024 bytes.  For a longer
  one it never gets to print: \<open>getcwd\<close> leaves \<open>errno\<close> alone when it succeeds, so the loop that waits
  for \<open>errno\<close> to stop being \<open>ERANGE\<close> goes on until an allocation fails or the size overflows.
\<close>

lemma builtin_pwd_result:
  assumes "alloc_ok env BUFFER_SIZE" and "cwd st = Some d"
  shows "if length d < 1024 then builtin_pwd env st = Returns (emit [ShIo (Out (d @ [NL]))] st, 1)
    else (\<forall>r. builtin_pwd env st \<noteq> Returns r)"
  using assms by (auto simp: builtin_pwd_short builtin_pwd_long)

text \<open>
  A turn of the shell consumes exactly one line of input, and it ends the loop exactly when the
  first word of that line is \<open>exit\<close>.
\<close>

lemma shell_turn_exit:
  assumes "shell_turn env st = Returns (st', n)"
  shows "inp st' = drop 1 (dropWhile (\<lambda>c. c \<noteq> NL) (inp st)) \<and>
    (n = 0 \<longleftrightarrow> (\<exists>args. words (cstr (takeWhile (\<lambda>c. c \<noteq> NL) (inp st))) = ''exit'' # args))"
  using shell_turn_returns [OF assms] by (auto simp: neq_Nil_conv)

definition demo_env :: sh_env where
  "demo_env =
     \<lparr>alloc_ok = (\<lambda>_. True), chdir = (\<lambda>_ d. Some d), fork = (\<lambda>_. Forked [WStopped 20, WSignaled 2])\<rparr>"

definition demo_shell :: "string \<Rightarrow> shell" where
  "demo_shell s =
     \<lparr>inp = s, cwd = Some ''/'', errno = OtherErrno, sigint = SIG_DFL, sigquit = SIG_DFL, log = []\<rparr>"

definition demo_env' :: sh_env where
  "demo_env' = demo_env\<lparr>chdir := \<lambda>_ _. Some ''/tmp''\<rparr>"



text \<open>
  (C35) Signals: in every state the loop passes through, the shell itself ignores SIGINT and SIGQUIT,
  and every program it has started was started with both signals at their default.
\<close>

theorem shell_signal_handling:
  assumes "shell_reaches env st s" and "log st = []"
  shows "sigint s = SIG_IGN \<and> sigquit s = SIG_IGN \<and> list_all spawn_default (log s)"
  using shell_reaches_ignores [OF assms(1)] shell_reaches_spawns [OF assms] by simp

theorem shell_signal_handling_witness:
  "\<exists>s. shell_reaches demo_env (demo_shell (''ls'' @ [NL])) s \<and>
     ShSpawn SIG_DFL SIG_DFL [''ls''] \<in> set (log s) \<and> sigint s = SIG_IGN"
proof -
  let ?s0 = "(demo_shell (''ls'' @ [NL]))\<lparr>sigint := SIG_IGN, sigquit := SIG_IGN\<rparr>"
  have r: "readline (alloc_ok demo_env) (inp ?s0) = Returns (''ls'', [])"
    by (simp add: readline_def demo_shell_def demo_env_def BUFFER_SIZE_def)
  have "words (cstr ''ls'') = [''ls'']" by code_simp
  then have "tokenize (alloc_ok demo_env) ''ls'' = Returns [''ls'']"
    by (simp add: tokenize_words demo_env_def)
  with r obtain s where turn: "shell_turn demo_env ?s0 = Returns (s, 1)"
    and l: "ShSpawn SIG_DFL SIG_DFL [''ls''] \<in> set (log s)"
    by (simp add: shell_turn_def Let_def emit_def execute_def find_builtin_eq bin_exec_def demo_env_def)
  have "shell_reaches demo_env (demo_shell (''ls'' @ [NL])) s"
    by (rule shell_reaches.turn [OF shell_reaches.at_start turn]) simp
  with l shell_signal_handling [OF this] show ?thesis by (auto simp: demo_shell_def)
qed

end
