(* ===== verification/Posix_Fd.thy ===== *)
theory Posix_Fd
  imports C_Prelude
begin

text \<open>
  Descriptor tables, shared by the programs under \<^verbatim>\<open>src/projects/ipc\<close>: a process has a table from
  descriptor numbers to open file descriptions, new descriptors get the lowest free number, and
  \<open>fork\<close> copies the table.  The interface \<open>fd_store\<close> states what the programs rely on; what
  redirecting a descriptor does follows from it once.
\<close>

datatype ofd =
    Inherited nat             \<comment> \<open>whatever the program was started with\<close>
  | OpenFile string u32       \<comment> \<open>a file opened by name, with its flags\<close>
  | PipeRead nat
  | PipeWrite nat

type_synonym fdtab = "ofd option list"

definition fd_get :: "fdtab \<Rightarrow> nat \<Rightarrow> ofd option" where
  "fd_get t n = (if n < length t then t ! n else None)"

definition fd_put :: "nat \<Rightarrow> ofd option \<Rightarrow> fdtab \<Rightarrow> fdtab" where
  "fd_put n x t = (if n < length t then t[n := x] else t @ replicate (n - length t) None @ [x])"

fun fd_lowest :: "fdtab \<Rightarrow> nat" where
  "fd_lowest [] = 0"
| "fd_lowest (None # t) = 0"
| "fd_lowest (Some _ # t) = Suc (fd_lowest t)"

text \<open>The system calls: \<open>open\<close> and \<open>pipe\<close> allocate, \<open>dup2\<close> and \<open>close\<close> change the table.\<close>

definition fd_alloc :: "ofd \<Rightarrow> fdtab \<Rightarrow> nat \<times> fdtab" where
  "fd_alloc x t = (fd_lowest t, fd_put (fd_lowest t) (Some x) t)"

definition fd_close :: "nat \<Rightarrow> fdtab \<Rightarrow> fdtab" where
  "fd_close n t = fd_put n None t"

definition fd_dup2 :: "nat \<Rightarrow> nat \<Rightarrow> fdtab \<Rightarrow> fdtab" where
  "fd_dup2 oldfd newfd t = (case fd_get t oldfd of None \<Rightarrow> t | Some x \<Rightarrow> fd_put newfd (Some x) t)"

definition fd_pipe :: "nat \<Rightarrow> fdtab \<Rightarrow> nat \<times> nat \<times> fdtab" where
  "fd_pipe k t =
     (let (r, t1) = fd_alloc (PipeRead k) t; (w, t2) = fd_alloc (PipeWrite k) t1 in (r, w, t2))"

text \<open>What a child process does: it runs \<open>sh -c cmd\<close> with its table, or exits.\<close>

datatype child = ChildExec "string list" fdtab | ChildExit "io list" int

definition exec_sh :: "string \<Rightarrow> fdtab \<Rightarrow> child" where
  "exec_sh cmd t = ChildExec [''sh'', ''-c'', cmd] t"

subsection \<open>The interface\<close>

locale fd_store =
  fixes get :: "'t \<Rightarrow> nat \<Rightarrow> 'o option"
    and put :: "nat \<Rightarrow> 'o option \<Rightarrow> 't \<Rightarrow> 't"
    and lowest :: "'t \<Rightarrow> nat"
  assumes get_put: "get (put n x t) m = (if m = n then x else get t m)"
    and lowest_free: "get t (lowest t) = None"
    and lowest_least: "m < lowest t \<Longrightarrow> get t m \<noteq> None"
begin

lemma lowest_not_open: "get t n \<noteq> None \<Longrightarrow> lowest t \<noteq> n"
  using lowest_free by auto

text \<open>Allocation keeps what is open and puts the new description where nothing was.\<close>

lemma alloc_get: "get (put (lowest t) (Some x) t) m = (if m = lowest t then Some x else get t m)"
  by (simp add: get_put)

lemma second_alloc:
  assumes "t1 = put (lowest t) (Some x) t"
  shows "lowest t1 \<noteq> lowest t" and "get t n \<noteq> None \<Longrightarrow> lowest t1 \<noteq> n"
proof -
  have "get t1 (lowest t) \<noteq> None" by (simp add: assms get_put)
  then show "lowest t1 \<noteq> lowest t" by (rule lowest_not_open)
  assume "get t n \<noteq> None"
  then have "get t1 n \<noteq> None" by (auto simp: assms get_put)
  then show "lowest t1 \<noteq> n" by (rule lowest_not_open)
qed

text \<open>
  Redirection, \<open>dup2(fd, target); close(fd)\<close>: the target refers to what \<open>fd\<close> did and \<open>fd\<close> is gone, unless
  they are the same descriptor, which ends up closed.
\<close>

lemma redirect_get:
  "get (put fd None (put target (get t fd) t)) m =
     (if m = fd then None else if m = target then get t fd else get t m)"
  by (simp add: get_put)

text \<open>The lowest free number is the given one exactly when that is free and all below are in use.\<close>

lemma lowest_eq_iff: "lowest t = n \<longleftrightarrow> get t n = None \<and> (\<forall>m < n. get t m \<noteq> None)"
proof
  assume "lowest t = n"
  then show "get t n = None \<and> (\<forall>m < n. get t m \<noteq> None)" using lowest_free lowest_least by auto
next
  assume n: "get t n = None \<and> (\<forall>m < n. get t m \<noteq> None)"
  then have "\<not> lowest t < n" using lowest_free by auto
  moreover have "\<not> n < lowest t" using n lowest_least [of n t] by auto
  ultimately show "lowest t = n" by simp
qed

end

interpretation fds: fd_store fd_get fd_put fd_lowest
proof unfold_locales
  fix n x t m
  show "fd_get (fd_put n x t) m = (if m = n then x else fd_get t m)"
    by (auto simp: fd_get_def fd_put_def nth_append nth_Cons' not_less)
next
  fix t
  show "fd_get t (fd_lowest t) = None"
    by (induction t rule: fd_lowest.induct) (auto simp: fd_get_def)
next
  fix m t
  assume "m < fd_lowest t"
  then show "fd_get t m \<noteq> None"
  proof (induction t arbitrary: m rule: fd_lowest.induct)
    case (3 x t)
    have "fd_get (Some x # t) (Suc k) = fd_get t k" for k by (simp add: fd_get_def)
    with 3 show ?case by (cases m) (simp_all add: fd_get_def [of _ 0])
  qed simp_all
qed

text \<open>The three standard descriptors are open.\<close>

definition std_open :: "fdtab \<Rightarrow> bool" where
  "std_open t \<longleftrightarrow> fd_get t 0 \<noteq> None \<and> fd_get t 1 \<noteq> None \<and> fd_get t 2 \<noteq> None"

lemma fd_close_get: "fd_get (fd_close n t) m = (if m = n then None else fd_get t m)"
  by (simp add: fd_close_def fds.get_put)

lemma fd_dup2_get:
  "fd_get t a = Some x \<Longrightarrow> fd_get (fd_dup2 a b t) m = (if m = b then Some x else fd_get t m)"
  by (simp add: fd_dup2_def fds.get_put)

lemma fd_pipe_get:
  assumes "fd_pipe k t = (r, w, t')"
  shows "r \<noteq> w" and "fd_get t r = None" and "fd_get t w = None"
    and "fd_get t' m = (if m = w then Some (PipeWrite k) else if m = r then Some (PipeRead k) else fd_get t m)"
proof -
  let ?t1 = "fd_put (fd_lowest t) (Some (PipeRead k)) t"
  have rw: "r = fd_lowest t" "w = fd_lowest ?t1" "t' = fd_put w (Some (PipeWrite k)) ?t1"
    using assms by (auto simp: fd_pipe_def fd_alloc_def)
  show "r \<noteq> w" using fds.second_alloc(1) [OF refl] rw by metis
  show "fd_get t r = None" using rw fds.lowest_free by simp
  show "fd_get t w = None" using rw fds.second_alloc(2) [OF refl] by metis
  show "fd_get t' m = (if m = w then Some (PipeWrite k) else if m = r then Some (PipeRead k) else fd_get t m)"
    by (simp add: rw fds.get_put)
qed

end
