(* ===== verification/Redirect.thy ===== *)
theory Redirect
  imports Posix_Fd
begin

text \<open>
  \<^verbatim>\<open>src/projects/ipc/io-redirector/main.c\<close> and \<^verbatim>\<open>src/projects/ipc/mini-pipeline/main.c\<close>: the descriptor tables
  with which they start \<open>sh -c\<close> for a command whose input or output is a file, and for two commands
  joined by a pipe.  Waiting for the children has no effect on the model.
\<close>

subsection \<open>The redirector\<close>

datatype redirect_opts = OUT | OUT_A | IN | UNKNOWN

definition parse_op :: "string \<Rightarrow> redirect_opts" where
  "parse_op opr =
     (if opr = ''out'' then OUT else if opr = ''out_a'' then OUT_A else if opr = ''in'' then IN else UNKNOWN)"

definition O_RDONLY :: u32 where "O_RDONLY = 0"
definition O_WRONLY :: u32 where "O_WRONLY = 1"
definition O_CREAT :: u32 where "O_CREAT = 0x40"
definition O_TRUNC :: u32 where "O_TRUNC = 0x200"
definition O_APPEND :: u32 where "O_APPEND = 0x400"

definition run_target :: "u32 \<Rightarrow> nat" where
  "run_target flags = (if flags AND O_WRONLY \<noteq> 0 then 1 else 0)"

text \<open>The child of \<open>run\<close>; it returns from \<open>execl\<close> only when that fails.\<close>

definition run_child :: "bool \<Rightarrow> fdtab \<Rightarrow> string \<Rightarrow> string \<Rightarrow> u32 \<Rightarrow> child" where
  "run_child open_ok t cmd file flags =
     (if \<not> open_ok then ChildExit [Perror ''open''] 1
      else let (fd, t1) = fd_alloc (OpenFile file flags) t;
               target = run_target flags;
               t2 = fd_dup2 fd target t1;
               t3 = fd_close fd t2
           in exec_sh cmd t3)"

definition redirect_run :: "int \<Rightarrow> bool \<Rightarrow> fdtab \<Rightarrow> string \<Rightarrow> string \<Rightarrow> u32 \<Rightarrow> io list \<times> child option \<times> int" where
  "redirect_run fork_pid open_ok t cmd file flags =
     (if fork_pid < 0 then ([Perror ''fork''], None, 1)
      else ([], Some (run_child open_ok t cmd file flags), 0))"

text \<open>\<open>main\<close> drops the value of \<open>run\<close> and returns 0 from its end.\<close>

definition redirect_main :: "int \<Rightarrow> bool \<Rightarrow> fdtab \<Rightarrow> string list \<Rightarrow> io list \<times> child option \<times> int" where
  "redirect_main fork_pid open_ok t argv =
     (if length argv < 4 then ([Err ''Usage: ./main cmd out|out_a|in file''], None, 1)
      else
        let cmd = argv ! 1; file = argv ! 3;
            go = (\<lambda>flags. case redirect_run fork_pid open_ok t cmd file flags of (es, c, _) \<Rightarrow> (es, c, 0))
        in case parse_op (argv ! 2) of
             OUT \<Rightarrow> go (O_WRONLY OR O_CREAT OR O_TRUNC)
           | OUT_A \<Rightarrow> go (O_WRONLY OR O_APPEND OR O_CREAT)
           | IN \<Rightarrow> go O_RDONLY
           | UNKNOWN \<Rightarrow> ([Err ''Unknown operator''], None, 1))"

subsection \<open>The pipeline\<close>

text \<open>
  \<open>run\<close>: the two children, each missing when its \<open>fork\<close> fails (which is not checked), and the parent's
  table while it waits.  \<open>k\<close> names the new pipe.
\<close>

definition pipeline_run ::
  "bool \<Rightarrow> bool \<Rightarrow> bool \<Rightarrow> nat \<Rightarrow> fdtab \<Rightarrow> string \<Rightarrow> string \<Rightarrow> io list + (child option \<times> child option \<times> fdtab)" where
  "pipeline_run pipe_ok fork1_ok fork2_ok k t cmd1 cmd2 =
     (if \<not> pipe_ok then Inl [Perror ''pipe'']
      else
        let (r, w, t1) = fd_pipe k t;
            child1 = exec_sh cmd1 (fd_close w (fd_close r (fd_dup2 w 1 t1)));
            child2 = exec_sh cmd2 (fd_close r (fd_close w (fd_dup2 r 0 t1)));
            t2 = fd_close w (fd_close r t1)
        in Inr (if fork1_ok then Some child1 else None, if fork2_ok then Some child2 else None, t2))"

definition pipeline_main ::
  "bool \<Rightarrow> bool \<Rightarrow> bool \<Rightarrow> nat \<Rightarrow> fdtab \<Rightarrow> string list \<Rightarrow> (io list \<times> int) + (child option \<times> child option \<times> fdtab)" where
  "pipeline_main pipe_ok fork1_ok fork2_ok k t argv =
     (if length argv < 3 then Inl ([Err (''Usage: ./main cmd1 cmd2'' @ [NL])], 1)
      else case pipeline_run pipe_ok fork1_ok fork2_ok k t (argv ! 1) (argv ! 2) of
        Inl es \<Rightarrow> Inl (es, 1)
      | Inr c \<Rightarrow> Inr c)"

subsection \<open>Lemmas\<close>

lemma run_child_table:
  "\<exists>tab. run_child True t cmd file flags = ChildExec [''sh'', ''-c'', cmd] tab \<and>
     (\<forall>n. fd_get tab n =
        (if n = run_target flags then (if fd_lowest t = run_target flags then None else Some (OpenFile file flags))
         else fd_get t n))"
proof -
  let ?fd = "fd_lowest t" and ?x = "OpenFile file flags" and ?target = "run_target flags"
  let ?t1 = "fd_put ?fd (Some ?x) t"
  have "fd_get ?t1 ?fd = Some ?x" by (simp add: fds.get_put)
  then have "fd_get (fd_close ?fd (fd_dup2 ?fd ?target ?t1)) n =
      (if n = ?target then (if ?fd = ?target then None else Some ?x) else fd_get t n)" for n
    using fds.lowest_free [of t] by (simp add: fd_close_get fd_dup2_get fds.get_put)
  then show ?thesis by (simp add: run_child_def fd_alloc_def exec_sh_def)
qed

definition op_flags :: "redirect_opts \<Rightarrow> u32" where
  "op_flags p =
     (case p of OUT \<Rightarrow> O_WRONLY OR O_CREAT OR O_TRUNC | OUT_A \<Rightarrow> O_WRONLY OR O_APPEND OR O_CREAT | _ \<Rightarrow> O_RDONLY)"

lemma run_target_op: "p \<noteq> UNKNOWN \<Longrightarrow> run_target (op_flags p) = (if p = IN then 0 else 1)"
  by (cases p) (simp_all add: run_target_def op_flags_def O_WRONLY_def O_CREAT_def O_TRUNC_def O_APPEND_def O_RDONLY_def)

lemma redirect_main_run:
  "4 \<le> length argv \<Longrightarrow> parse_op (argv ! 2) \<noteq> UNKNOWN \<Longrightarrow> 0 \<le> pid \<Longrightarrow>
     redirect_main pid open_ok t argv =
       ([], Some (run_child open_ok t (argv ! 1) (argv ! 3) (op_flags (parse_op (argv ! 2)))), 0)"
  by (cases "parse_op (argv ! 2)") (simp_all add: redirect_main_def redirect_run_def op_flags_def Let_def)

subsection \<open>Properties\<close>

text \<open>
  (C32) Redirection: the command runs as \<open>sh -c\<close> with its standard output (\<open>out\<close>, \<open>out_a\<close>) or input
  (\<open>in\<close>) on the named file, opened for truncation, appending or reading, and with every other
  descriptor as the program had it: no stray copy of the file stays open.  The exception is a
  program started with that very descriptor closed as the lowest free one: then the command runs
  without it.
\<close>

theorem redirect_tables:
  assumes "4 \<le> length argv" and "parse_op (argv ! 2) = p" and "p \<noteq> UNKNOWN" and "0 \<le> pid"
    and "target = (if p = IN then 0 else 1)"
  shows "\<exists>tab. redirect_main pid True t argv = ([], Some (ChildExec [''sh'', ''-c'', argv ! 1] tab), 0) \<and>
    (\<forall>n. n \<noteq> target \<longrightarrow> fd_get tab n = fd_get t n) \<and>
    fd_get tab target =
      (if fd_get t target = None \<and> (\<forall>m < target. fd_get t m \<noteq> None) then None
       else Some (OpenFile (argv ! 3) (op_flags p)))"
proof -
  have tg: "run_target (op_flags p) = target" using run_target_op assms(3,5) by simp
  obtain tab where "run_child True t (argv ! 1) (argv ! 3) (op_flags p) = ChildExec [''sh'', ''-c'', argv ! 1] tab"
    "\<And>n. fd_get tab n =
        (if n = target then (if fd_lowest t = target then None else Some (OpenFile (argv ! 3) (op_flags p)))
         else fd_get t n)"
    using run_child_table [of t "argv ! 1" "argv ! 3" "op_flags p"] unfolding tg by blast
  moreover have "fd_lowest t = target \<longleftrightarrow> fd_get t target = None \<and> (\<forall>m < target. fd_get t m \<noteq> None)"
    by (rule fds.lowest_eq_iff)
  ultimately show ?thesis using redirect_main_run [of argv pid True t] assms by (intro exI [of _ tab]) simp
qed

definition demo_table :: fdtab where
  "demo_table = map (\<lambda>i. Some (Inherited i)) [0, 1, 2]"

theorem redirect_tables_witness:
  "\<exists>tab. redirect_main 7 True demo_table [''main'', ''ls'', ''out'', ''log''] =
       ([], Some (ChildExec [''sh'', ''-c'', ''ls''] tab), 0) \<and>
     fd_get tab 1 = Some (OpenFile ''log'' 0x241) \<and> fd_get tab 0 = Some (Inherited 0)"
proof -
  have tab0: "fd_get demo_table 1 = Some (Inherited 1)" "fd_get demo_table 0 = Some (Inherited 0)"
    by (simp_all add: fd_get_def demo_table_def)
  have p: "parse_op ''out'' = OUT" "op_flags OUT = 0x241"
    by (simp_all add: parse_op_def op_flags_def O_WRONLY_def O_CREAT_def O_TRUNC_def)
  obtain tab where "redirect_main 7 True demo_table [''main'', ''ls'', ''out'', ''log''] =
      ([], Some (ChildExec [''sh'', ''-c'', ''ls''] tab), 0)" "\<forall>n. n \<noteq> 1 \<longrightarrow> fd_get tab n = fd_get demo_table n"
    "fd_get tab 1 = Some (OpenFile ''log'' 0x241)"
    using redirect_tables [of "[''main'', ''ls'', ''out'', ''log'']" OUT 7 1 demo_table] p tab0 by auto
  then show ?thesis using tab0(2) by (intro exI [of _ tab]) simp
qed

text \<open>
  (C31) The pipeline's descriptors: with the standard descriptors open, the first command has the pipe's
  write end as its standard output, the second the read end as its standard input, and there is no
  other descriptor of the pipe in either of them or in the waiting parent; everything else is
  inherited.  So the write end is closed, and the second command sees the end of its input, as soon
  as the first command is done.
\<close>

theorem pipeline_tables:
  assumes "std_open t" and "3 \<le> length argv"
  shows "\<exists>tab1 tab2 t'. pipeline_main True True True k t argv =
      Inr (Some (ChildExec [''sh'', ''-c'', argv ! 1] tab1), Some (ChildExec [''sh'', ''-c'', argv ! 2] tab2), t') \<and>
    fd_get tab1 = (fd_get t)(1 \<mapsto> PipeWrite k) \<and> fd_get tab2 = (fd_get t)(0 \<mapsto> PipeRead k) \<and>
    fd_get t' = fd_get t"
proof -
  obtain r w t1 where p: "fd_pipe k t = (r, w, t1)" by (metis prod_cases3)
  note get = fd_pipe_get [OF p]
  have ne: "r \<noteq> 0" "r \<noteq> 1" "w \<noteq> 0" "w \<noteq> 1" using assms(1) get(2,3) unfolding std_open_def by metis+
  have ends: "fd_get t1 w = Some (PipeWrite k)" "fd_get t1 r = Some (PipeRead k)" using get(1,4) by auto
  have "fd_get (fd_close w (fd_close r (fd_dup2 w 1 t1))) = (fd_get t)(1 \<mapsto> PipeWrite k)"
    using ne get by (auto simp: fun_eq_iff fd_close_get fd_dup2_get [OF ends(1)])
  moreover have "fd_get (fd_close r (fd_close w (fd_dup2 r 0 t1))) = (fd_get t)(0 \<mapsto> PipeRead k)"
    using ne get by (auto simp: fun_eq_iff fd_close_get fd_dup2_get [OF ends(2)])
  moreover have "fd_get (fd_close w (fd_close r t1)) = fd_get t"
    using get by (auto simp: fun_eq_iff fd_close_get)
  ultimately show ?thesis using assms(2)
    by (simp add: pipeline_main_def pipeline_run_def p exec_sh_def)
qed

theorem pipeline_tables_witness:
  "\<exists>tab1 tab2 t'. pipeline_main True True True 5 demo_table [''main'', ''ls'', ''wc''] =
      Inr (Some (ChildExec [''sh'', ''-c'', ''ls''] tab1), Some (ChildExec [''sh'', ''-c'', ''wc''] tab2), t') \<and>
    fd_get tab1 1 = Some (PipeWrite 5) \<and> fd_get tab2 0 = Some (PipeRead 5)"
proof -
  have "std_open demo_table" by (simp add: std_open_def fd_get_def demo_table_def)
  from pipeline_tables [OF this, of "[''main'', ''ls'', ''wc'']" 5] show ?thesis by fastforce
qed

end
