(* ===== verification/Runner.thy ===== *)
theory Runner
  imports Posix_Fd
begin

text \<open>
  \<^verbatim>\<open>src/projects/ipc/parallel-runner/main.c\<close>: it starts up to ten commands, each with its output in a pipe
  of its own, then for every \<open>waitpid\<close> that reports a child reads its pipe once and prints it.  The
  process numbers, the order in which the children end and what they have written are parameters.
\<close>

definition MAX_CMDS :: nat where "MAX_CMDS = 10"
definition BUFFER :: nat where "BUFFER = 1024"

subsection \<open>Starting the commands\<close>

text \<open>The first loop: the children, the read ends kept in \<open>pipes\<close>, and the parent's table.\<close>

fun spawn :: "nat \<Rightarrow> string list \<Rightarrow> fdtab \<Rightarrow> child list \<times> nat list \<times> fdtab" where
  "spawn i [] t = ([], [], t)"
| "spawn i (cmd # cmds) t =
     (if MAX_CMDS \<le> i then ([], [], t)
      else
        let (r, w, t1) = fd_pipe i t;
            child = exec_sh cmd (fd_close w (fd_close r (fd_dup2 w 1 t1)));
            (children, rs, t2) = spawn (i + 1) cmds (fd_close w t1)
        in (child # children, r # rs, t2))"

subsection \<open>Collecting the output\<close>

text \<open>
  The search for the child's index; it runs over as many indices as there are commands, the array
  has \<open>MAX_CMDS\<close> entries.
\<close>

fun find_pid :: "int list \<Rightarrow> int \<Rightarrow> nat list \<Rightarrow> nat option cres" where
  "find_pid pids reaped [] = Inr None"
| "find_pid pids reaped (j # js) =
     (if MAX_CMDS \<le> j then Inl OutOfBounds
      else if pids ! j = reaped then Inr (Some j)
      else find_pid pids reaped js)"

definition report_line :: "nat \<Rightarrow> string \<Rightarrow> string" where
  "report_line i s = ''['' @ show_nat i @ ''] '' @ s @ [NL]"

text \<open>
  One turn: no index found means \<open>pipes[-1]\<close>; a buffer filled without a NUL is printed past its end.
\<close>

definition collect_one :: "int list \<Rightarrow> (nat \<Rightarrow> string) \<Rightarrow> nat \<Rightarrow> int \<Rightarrow> io cres" where
  "collect_one pids outputs n reaped =
     (case find_pid pids reaped [0..<n] of
        Inl u \<Rightarrow> Inl u
      | Inr None \<Rightarrow> Inl OutOfBounds
      | Inr (Some i) \<Rightarrow>
          let data = take BUFFER (outputs i) in
          if length data = BUFFER \<and> NUL \<notin> set data then Inl OutOfBounds
          else Inr (Out (report_line i (cstr data))))"

text \<open>The second loop, with the values \<open>waitpid\<close> returns; it waits when there are no more of them.\<close>

fun collect :: "int list \<Rightarrow> (nat \<Rightarrow> string) \<Rightarrow> nat \<Rightarrow> nat \<Rightarrow> int list \<Rightarrow> io list outcome" where
  "collect pids outputs n 0 ws = Returns []"
| "collect pids outputs n (Suc k) [] = Blocks"
| "collect pids outputs n (Suc k) (w # ws) =
     (case collect_one pids outputs n w of
        Inl u \<Rightarrow> Undefined u
      | Inr e \<Rightarrow> obind (collect pids outputs n k ws) (\<lambda>es. Returns (e # es)))"

definition pid_array :: "(nat \<Rightarrow> int) \<Rightarrow> nat \<Rightarrow> int list" where
  "pid_array pid n = map (\<lambda>i. if i < n then pid i else 0) [0..<MAX_CMDS]"

definition runner_main :: "(nat \<Rightarrow> int) \<Rightarrow> (nat \<Rightarrow> string) \<Rightarrow> int list \<Rightarrow> string list \<Rightarrow> io list outcome" where
  "runner_main pid outputs ws argv =
     (if length argv = 1 then Exits [Err (''Usage: at least 1 command'' @ [NL])] 1
      else let n = length argv - 1 in collect (pid_array pid n) outputs n n ws)"

subsection \<open>Lemmas\<close>

lemma find_pid_least:
  assumes "inj_on pid {..<n}" and "i < n" and "i < MAX_CMDS" and "a \<le> i"
  shows "find_pid (pid_array pid n) (pid i) [a..<n] = Inr (Some i)"
  using assms
proof (induction "i - a" arbitrary: a)
  case 0
  then have "[a..<n] = i # [Suc i..<n]" by (simp add: upt_conv_Cons)
  with 0 show ?case by (simp add: pid_array_def)
next
  case (Suc d)
  then have a: "a < i" "[a..<n] = a # [Suc a..<n]" by (simp_all add: upt_conv_Cons)
  moreover have "pid a \<noteq> pid i" using Suc.prems a(1) by (auto simp: inj_on_def)
  moreover have "find_pid (pid_array pid n) (pid i) [Suc a..<n] = Inr (Some i)"
    using Suc a by (intro Suc.hyps(1)) auto
  ultimately show ?case using Suc.prems by (simp add: pid_array_def)
qed

text \<open>A value that no child has is looked for until the array ends.\<close>

lemma find_pid_none:
  "\<forall>j < MAX_CMDS. pids ! j \<noteq> w \<Longrightarrow> find_pid pids w [a..<n] = (if MAX_CMDS < n \<and> a < n then Inl OutOfBounds else Inr None)"
proof (induction "n - a" arbitrary: a)
  case (Suc d)
  then have a: "a < n" "[a..<n] = a # [Suc a..<n]" by (simp_all add: upt_conv_Cons)
  with Suc.prems Suc.hyps(1) [of "Suc a"] Suc.hyps(2) show ?case by auto
qed simp

lemma collect_one_child:
  assumes "inj_on pid {..<n}" and "i < n" and "i < MAX_CMDS"
  shows "collect_one (pid_array pid n) outputs n (pid i) =
    (if 1024 \<le> length (outputs i) \<and> NUL \<notin> set (take 1024 (outputs i)) then Inl OutOfBounds
     else Inr (Out (report_line i (cstr (take 1024 (outputs i))))))"
  using find_pid_least [OF assms, of 0] by (auto simp: collect_one_def BUFFER_def Let_def min_def)

lemma collect_children:
  assumes "inj_on pid {..<n}" and "\<forall>i \<in> set order. i < n \<and> i < MAX_CMDS \<and> length (outputs i) < 1024"
  shows "collect (pid_array pid n) outputs n (length order + k) (map pid order @ ws) =
    obind (collect (pid_array pid n) outputs n k ws)
      (\<lambda>es. Returns (map (\<lambda>i. Out (report_line i (cstr (outputs i)))) order @ es))"
  using assms(2)
proof (induction order)
  case Nil
  show ?case by (cases "collect (pid_array pid n) outputs n k ws") simp_all
next
  case (Cons i order)
  then have "collect_one (pid_array pid n) outputs n (pid i) = Inr (Out (report_line i (cstr (outputs i))))"
    using collect_one_child [OF assms(1), of i outputs] by simp
  with Cons show ?case by (cases "collect (pid_array pid n) outputs n k ws") simp_all
qed

text \<open>The write end of its pipe is the only write end a child has, and it is its standard output.\<close>

definition no_write_end :: "fdtab \<Rightarrow> bool" where
  "no_write_end t \<longleftrightarrow> (\<forall>n k. fd_get t n \<noteq> Some (PipeWrite k))"

lemma spawn_step:
  assumes "std_open t" and "no_write_end t" and "fd_pipe i t = (r, w, t1)"
  shows "std_open (fd_close w t1)" and "no_write_end (fd_close w t1)"
    and "fd_get (fd_close w (fd_close r (fd_dup2 w 1 t1))) = (fd_get t)(1 \<mapsto> PipeWrite i)"
proof -
  note get = fd_pipe_get [OF assms(3)]
  have ne: "r \<noteq> 0" "r \<noteq> 1" "r \<noteq> 2" "w \<noteq> 0" "w \<noteq> 1" "w \<noteq> 2" using assms(1) get(2,3) unfolding std_open_def by metis+
  show "std_open (fd_close w t1)" using ne assms(1) by (simp add: std_open_def fd_close_get get(4))
  show "no_write_end (fd_close w t1)" using assms(2) by (auto simp: no_write_end_def fd_close_get get(4))
  have "fd_get t1 w = Some (PipeWrite i)" by (simp add: get(4))
  then show "fd_get (fd_close w (fd_close r (fd_dup2 w 1 t1))) = (fd_get t)(1 \<mapsto> PipeWrite i)"
    using ne get by (auto simp: fun_eq_iff fd_close_get fd_dup2_get)
qed

lemma spawn_children:
  assumes "std_open t" and "no_write_end t" and "spawn i cmds t = (children, rs, t')"
  shows "length children = min (length cmds) (MAX_CMDS - i) \<and> no_write_end t' \<and>
    (\<forall>j < length children. \<exists>tab. children ! j = ChildExec [''sh'', ''-c'', cmds ! j] tab \<and>
       (\<forall>n k. fd_get tab n = Some (PipeWrite k) \<longleftrightarrow> n = 1 \<and> k = i + j))"
  using assms
proof (induction i cmds t arbitrary: children rs t' rule: spawn.induct)
  case (2 i cmd cmds t)
  show ?case
  proof (cases "MAX_CMDS \<le> i")
    case False
    obtain r w t1 where p: "fd_pipe i t = (r, w, t1)" by (metis prod_cases3)
    obtain ch rs' t2 where rest: "spawn (i + 1) cmds (fd_close w t1) = (ch, rs', t2)" by (metis prod_cases3)
    note step = spawn_step [OF "2.prems"(1,2) p]
    have eq: "children = exec_sh cmd (fd_close w (fd_close r (fd_dup2 w 1 t1))) # ch" "t' = t2"
      using "2.prems"(3) False p rest by auto
    have IH: "length ch = min (length cmds) (MAX_CMDS - (i + 1)) \<and> no_write_end t2 \<and>
        (\<forall>j < length ch. \<exists>tab. ch ! j = ChildExec [''sh'', ''-c'', cmds ! j] tab \<and>
           (\<forall>n k. fd_get tab n = Some (PipeWrite k) \<longleftrightarrow> n = 1 \<and> k = i + 1 + j))"
      using "2.IH" [OF False p [symmetric] refl refl _ step(1,2) rest] by simp
    have hd: "fd_get (fd_close w (fd_close r (fd_dup2 w 1 t1))) n = Some (PipeWrite k) \<longleftrightarrow> n = 1 \<and> k = i" for n k
      using "2.prems"(2) unfolding step(3) by (auto simp: no_write_end_def)
    have "\<exists>tab. children ! j = ChildExec [''sh'', ''-c'', (cmd # cmds) ! j] tab \<and>
        (\<forall>n k. fd_get tab n = Some (PipeWrite k) \<longleftrightarrow> n = 1 \<and> k = i + j)" if "j < length children" for j
    proof (cases j)
      case 0
      then show ?thesis using hd by (simp add: eq exec_sh_def)
    next
      case (Suc j')
      then show ?thesis using that IH by (simp add: eq)
    qed
    then show ?thesis using IH eq False by auto
  qed (use "2.prems" in simp)
qed simp

lemma collect_unknown:
  "\<forall>i < MAX_CMDS. pids ! i \<noteq> w \<Longrightarrow> collect pids outputs n (Suc k) (w # ws) = Undefined OutOfBounds"
  by (simp add: collect_one_def find_pid_none)

lemma order_length: "distinct order \<Longrightarrow> set order = {..<n} \<Longrightarrow> length order = n"
  by (metis card_lessThan distinct_card)

subsection \<open>Properties\<close>

text \<open>
  (C33) Every command is reported: with at most ten commands, whose children have different process
  numbers and write less than 1024 bytes each, whatever the order in which they end, the program
  prints for each of them one line with its own index and its own output, in that order.
\<close>

theorem runner_reports_each:
  assumes "length argv = Suc n" and "1 \<le> n" and "n \<le> 10" and "inj_on pid {..<n}"
    and "distinct order" and "set order = {..<n}" and "\<forall>i < n. length (outputs i) < 1024"
  shows "runner_main pid outputs (map pid order) argv =
    Returns (map (\<lambda>i. Out (report_line i (cstr (outputs i)))) order)"
proof -
  have "\<forall>i \<in> set order. i < n \<and> i < MAX_CMDS \<and> length (outputs i) < 1024"
    using assms by (auto simp: MAX_CMDS_def)
  from collect_children [OF assms(4) this, of 0 "[]"] order_length [OF assms(5,6)] assms(1,2)
  show ?thesis by (simp add: runner_main_def)
qed

theorem runner_reports_each_witness:
  "runner_main (\<lambda>i. 100 + int i) (\<lambda>i. if i = 0 then ''a'' else ''b'') (map (\<lambda>i. 100 + int i) [1, 0])
     [''main'', ''echo a'', ''echo b''] = Returns [Out (report_line 1 (cstr ''b'')), Out (report_line 0 (cstr ''a''))]"
proof -
  have "inj_on (\<lambda>i. 100 + int i) {..<2}" by (auto simp: inj_on_def)
  moreover have "set [1, 0 :: nat] = {..<2}" by auto
  ultimately show ?thesis
    using runner_reports_each [of "[''main'', ''echo a'', ''echo b'']" 2 "\<lambda>i. 100 + int i" "[1, 0]"
        "\<lambda>i. if i = 0 then ''a'' else ''b''"] by simp
qed

text \<open>
  The children's pipes: up to ten children are started, in the order of the commands; each has the
  write end of its own pipe as its standard output and no other write end of any pipe, and the
  parent keeps none, so a pipe ends when its command does.
\<close>

lemma runner_children_tables:
  assumes "std_open t" and "no_write_end t"
  shows "case spawn 0 cmds t of (children, rs, t') \<Rightarrow>
    length children = min (length cmds) 10 \<and> no_write_end t' \<and>
    (\<forall>j < length children. \<exists>tab. children ! j = ChildExec [''sh'', ''-c'', cmds ! j] tab \<and>
       (\<forall>n k. fd_get tab n = Some (PipeWrite k) \<longleftrightarrow> n = 1 \<and> k = j))"
proof -
  obtain children rs t' where "spawn 0 cmds t = (children, rs, t')" by (metis prod_cases3)
  with spawn_children [OF assms this] show ?thesis by (simp add: MAX_CMDS_def)
qed

text \<open>
  (C36) The limits: with more than ten commands, once the ten children that were started have been
  reported the next \<open>waitpid\<close> has no child and the search for its value leaves the array; an output of
  1024 bytes or more without a NUL is printed past the buffer; and as long as one child has not ended,
  as one does not that has filled its pipe, which nobody reads before, the program waits.
\<close>

theorem runner_limits:
  assumes "length argv = Suc n" and "1 \<le> n" and "inj_on pid {..<n}" and "distinct order"
    and "set order \<subseteq> {..<min n 10}" and "\<forall>i \<in> set order. length (outputs i) < 1024"
  shows "(10 < n \<and> length order = 10 \<and> (\<forall>i < 10. pid i \<noteq> w) \<longrightarrow>
      runner_main pid outputs (map pid order @ w # ws) argv = Undefined OutOfBounds)
    \<and> (\<forall>i < min n 10. length order < n \<and> 1024 \<le> length (outputs i) \<and> NUL \<notin> set (take 1024 (outputs i)) \<longrightarrow>
      runner_main pid outputs (map pid order @ pid i # ws) argv = Undefined OutOfBounds)
    \<and> (length order < n \<longrightarrow> runner_main pid outputs (map pid order) argv = Blocks)"
proof -
  have order: "\<forall>i \<in> set order. i < n \<and> i < MAX_CMDS \<and> length (outputs i) < 1024"
    using assms(5,6) by (auto simp: MAX_CMDS_def)
  have run: "runner_main pid outputs (map pid order @ ws) argv =
      obind (collect (pid_array pid n) outputs n (Suc k) ws)
        (\<lambda>es. Returns (map (\<lambda>i. Out (report_line i (cstr (outputs i)))) order @ es))"
    if "n = length order + Suc k" for k ws
    using collect_children [OF assms(3) order, of "Suc k" ws] assms(1,2) that by (simp add: runner_main_def)
  have suc: "\<exists>k. n = length order + Suc k" if "length order < n"
    using that by (metis add_Suc_right less_imp_Suc_add)
  have "runner_main pid outputs (map pid order @ w # ws) argv = Undefined OutOfBounds"
    if "10 < n" "length order = 10" "\<forall>i < 10. pid i \<noteq> w"
  proof -
    have "\<forall>i < MAX_CMDS. pid_array pid n ! i \<noteq> w" using that by (simp add: pid_array_def MAX_CMDS_def)
    then have "collect (pid_array pid n) outputs n (Suc k) (w # ws) = Undefined OutOfBounds" for k
      by (rule collect_unknown)
    then show ?thesis using suc run [of _ "w # ws"] that by (auto simp del: collect.simps)
  qed
  moreover have "runner_main pid outputs (map pid order @ pid i # ws) argv = Undefined OutOfBounds"
    if "i < min n 10" "length order < n" "1024 \<le> length (outputs i)" "NUL \<notin> set (take 1024 (outputs i))" for i
    using suc run that collect_one_child [OF assms(3), of i outputs] by (auto simp: MAX_CMDS_def)
  moreover have "runner_main pid outputs (map pid order) argv = Blocks" if "length order < n"
    using suc [OF that] run [of _ "[]"] by auto
  ultimately show ?thesis by blast
qed

theorem runner_limits_witness:
  "runner_main (\<lambda>i. 100 + int i) (\<lambda>_. ''x'') (map (\<lambda>i. 100 + int i) [0..<10] @ - 1 # []) (replicate 12 ''echo x'') =
     Undefined OutOfBounds"
proof -
  have "inj_on (\<lambda>i. 100 + int i) {..<11}" by (auto simp: inj_on_def)
  then show ?thesis
    using runner_limits [of "replicate 12 ''echo x''" 11 "\<lambda>i. 100 + int i" "[0..<10]" "\<lambda>_. ''x''" "- 1" "[]",
        THEN conjunct1] by (simp add: lessThan_atLeast0 del: upt_Suc)
qed

end
