(* ===== verification/Greyscale.thy ===== *)
theory Greyscale
  imports C_Bytes
begin

text \<open>
  \<^verbatim>\<open>src/projects/graphics/greyscale-filter/main.c\<close>: the two bitmap headers and the pixel as packed
  structures, the padding of the rows, and \<open>main\<close> from the bytes of the input file to the bytes of
  \<open>greyscale.bmp\<close>.
\<close>

subsection \<open>The structures\<close>

record bmp_header =
  bfType :: u16
  bfSize :: u32
  bfReserved1 :: u16
  bfReserved2 :: u16
  bfOffBits :: u32

record bmp_info_header =
  biSize :: u32
  biWidth :: u32            \<comment> \<open>\<open>LONG\<close>: read with \<open>sint\<close>\<close>
  biHeight :: u32
  biPlanes :: u16
  biBitCount :: u16
  biCompression :: u32
  biSizeImage :: u32
  biXPelsPerMeter :: u32
  biYPelsPerMeter :: u32
  biClrUsed :: u32
  biClrImportant :: u32

record rgbtriple =
  rgbtBlue :: u8
  rgbtGreen :: u8
  rgbtRed :: u8

definition enc_header :: "bmp_header \<Rightarrow> u8 list" where
  "enc_header h =
     le16 (bfType h) @ le32 (bfSize h) @ le16 (bfReserved1 h) @ le16 (bfReserved2 h) @ le32 (bfOffBits h)"

definition dec_header :: "u8 list \<Rightarrow> bmp_header" where
  "dec_header bs =
     \<lparr>bfType = rd16 bs, bfSize = rd32 (drop 2 bs), bfReserved1 = rd16 (drop 6 bs), bfReserved2 = rd16 (drop 8 bs),
      bfOffBits = rd32 (drop 10 bs)\<rparr>"

definition enc_info :: "bmp_info_header \<Rightarrow> u8 list" where
  "enc_info h =
     le32 (biSize h) @ le32 (biWidth h) @ le32 (biHeight h) @ le16 (biPlanes h) @ le16 (biBitCount h) @
     le32 (biCompression h) @ le32 (biSizeImage h) @ le32 (biXPelsPerMeter h) @ le32 (biYPelsPerMeter h) @
     le32 (biClrUsed h) @ le32 (biClrImportant h)"

definition dec_info :: "u8 list \<Rightarrow> bmp_info_header" where
  "dec_info bs =
     \<lparr>biSize = rd32 bs, biWidth = rd32 (drop 4 bs), biHeight = rd32 (drop 8 bs), biPlanes = rd16 (drop 12 bs),
      biBitCount = rd16 (drop 14 bs), biCompression = rd32 (drop 16 bs), biSizeImage = rd32 (drop 20 bs),
      biXPelsPerMeter = rd32 (drop 24 bs), biYPelsPerMeter = rd32 (drop 28 bs), biClrUsed = rd32 (drop 32 bs),
      biClrImportant = rd32 (drop 36 bs)\<rparr>"

definition enc_rgb :: "rgbtriple \<Rightarrow> u8 list" where
  "enc_rgb p = [rgbtBlue p, rgbtGreen p, rgbtRed p]"

definition dec_rgb :: "u8 list \<Rightarrow> rgbtriple" where
  "dec_rgb bs = \<lparr>rgbtBlue = bs ! 0, rgbtGreen = bs ! 1, rgbtRed = bs ! 2\<rparr>"

interpretation bmp: fixed_codec enc_header dec_header 14
  by unfold_locales (simp_all add: enc_header_def dec_header_def)

interpretation bmpinfo: fixed_codec enc_info dec_info 40
  by unfold_locales (simp_all add: enc_info_def dec_info_def)

interpretation rgb: fixed_codec enc_rgb dec_rgb 3
  by unfold_locales (simp_all add: enc_rgb_def dec_rgb_def)

subsection \<open>The filter\<close>

text \<open>\<open>width * sizeof(RGBTRIPLE)\<close> is a 64-bit unsigned product.\<close>

definition row_padding :: "int \<Rightarrow> nat" where
  "row_padding width = (4 - nat ((width * 3) mod 2 ^ 64) mod 4) mod 4"

definition grey :: "rgbtriple \<Rightarrow> rgbtriple" where
  "grey p =
     (let avg = of_nat ((unat (rgbtRed p) + unat (rgbtGreen p) + unat (rgbtBlue p)) div 3)
      in p\<lparr>rgbtRed := avg, rgbtGreen := avg, rgbtBlue := avg\<rparr>)"

text \<open>
  The rows as \<open>fread\<close> and \<open>fseek\<close> take them from the file; \<open>None\<close> when the file ends inside a row, whose
  remaining pixels then are never written.
\<close>

fun read_rows :: "u8 list \<Rightarrow> nat \<Rightarrow> nat \<Rightarrow> nat \<Rightarrow> nat \<Rightarrow> rgbtriple list list option" where
  "read_rows bs pos width padding 0 = Some []"
| "read_rows bs pos width padding (Suc n) =
     (if pos + 3 * width \<le> length bs then
        map_option (\<lambda>rows. dec_seq dec_rgb 3 width (drop pos bs) # rows)
          (read_rows bs (pos + 3 * width + padding) width padding n)
      else None)"

definition write_row :: "nat \<Rightarrow> rgbtriple list \<Rightarrow> u8 list" where
  "write_row padding row = concat (map enc_rgb row) @ replicate padding 0"

text \<open>
  \<open>main\<close>: the bytes of \<open>greyscale.bmp\<close> when it returns 0.  \<open>input\<close> is the file named by the argument,
  \<open>malloc_ok\<close> tells for a size whether \<open>malloc\<close> succeeds, \<open>out_ok\<close> whether the output can be opened.
\<close>

definition gs_main :: "u8 list option \<Rightarrow> (nat \<Rightarrow> bool) \<Rightarrow> bool \<Rightarrow> string list \<Rightarrow> u8 list outcome" where
  "gs_main input malloc_ok out_ok argv =
     (if length argv < 2 then Exits [Err (''Argument required'' @ [NL])] 1
      else case input of
        None \<Rightarrow> Exits [] 1
      | Some bs \<Rightarrow>
          if length bs < 14 then Undefined UninitRead
          else let header = dec_header bs in
          if bfType header = 0x4d42 \<and> length bs < 54 then Undefined UninitRead
          else let info_header = dec_info (drop 14 bs) in
          if bfType header \<noteq> 0x4d42 \<or> biBitCount info_header \<noteq> 24 then
            Exits [Err (''Incorrect fileformat'' @ [NL] @ ''Only 24 bit bmp supported'' @ [NL])] 1
          else let width = sint (biWidth info_header); height = sint (biHeight info_header);
                   padding = row_padding width in
          if width \<le> 0 then Undefined BadVlaSize
          else if \<not> malloc_ok (nat ((height * (3 * width)) mod 2 ^ 64)) then
            Exits [Err (''Memory allocation failed'' @ [NL])] 1
          else (case read_rows bs (unat (bfOffBits header)) (nat width) padding (nat height) of
              None \<Rightarrow> Undefined UninitRead
            | Some pixels \<Rightarrow>
                if \<not> out_ok then Undefined NullPointer
                else Returns (enc_header header @ enc_info info_header @
                       concat (map (write_row padding) (map (map grey) pixels)))))"

subsection \<open>Lemmas\<close>

lemma pad_to_four: "(n + (4 - n mod 4) mod 4) mod 4 = (0 :: nat)"
proof -
  have "n mod 4 < 4" by simp
  then have "n mod 4 = 0 \<or> n mod 4 = 1 \<or> n mod 4 = 2 \<or> n mod 4 = 3" by linarith
  moreover have "(n + (4 - n mod 4) mod 4) mod 4 = (n mod 4 + (4 - n mod 4) mod 4) mod 4"
    by (simp only: mod_add_left_eq)
  ultimately show ?thesis by auto
qed

lemma row_padding_stride:
  assumes "0 \<le> w" and "w < 2 ^ 31"
  shows "(3 * nat w + row_padding w) mod 4 = 0 \<and> row_padding w < 4"
proof -
  have "w * 3 < 18446744073709551616" using assms(2) by simp
  then have "(w * 3) mod 2 ^ 64 = w * 3" using assms(1) by simp
  then have "nat ((w * 3) mod 2 ^ 64) = 3 * nat w" using assms(1) by (simp add: nat_mult_distrib)
  then have "row_padding w = (4 - (3 * nat w) mod 4) mod 4" by (simp only: row_padding_def)
  then show ?thesis using pad_to_four [of "3 * nat w"] by simp
qed

lemma grey_components:
  "rgbtRed (grey p) = rgbtGreen (grey p) \<and> rgbtGreen (grey p) = rgbtBlue (grey p) \<and>
   unat (rgbtRed (grey p)) = (unat (rgbtRed p) + unat (rgbtGreen p) + unat (rgbtBlue p)) div 3"
proof -
  have "unat (rgbtRed p) < 256" "unat (rgbtGreen p) < 256" "unat (rgbtBlue p) < 256" by simp_all
  then have "(unat (rgbtRed p) + unat (rgbtGreen p) + unat (rgbtBlue p)) div 3 < 256" by linarith
  then show ?thesis by (simp add: grey_def Let_def unat_of_nat)
qed

lemma grey_grey: "grey (grey p) = grey p"
proof -
  have three: "(n + n + n) div 3 = (n :: nat)" for n by linarith
  have "unat (rgbtRed (grey (grey p))) = unat (rgbtRed (grey p))"
    using grey_components [of p] grey_components [of "grey p"] three by metis
  then have "rgbtRed (grey (grey p)) = rgbtRed (grey p)" by (rule unsigned_word_eqI)
  then show ?thesis using grey_components [of p] grey_components [of "grey p"]
    by (simp add: grey_def Let_def)
qed

text \<open>An image as a file holds it: each row with the bytes that pad it.\<close>

definition enc_rows :: "(rgbtriple list \<times> u8 list) list \<Rightarrow> u8 list" where
  "enc_rows rows = concat (map (\<lambda>(row, pad). concat (map enc_rgb row) @ pad) rows)"

definition rows_ok :: "nat \<Rightarrow> nat \<Rightarrow> (rgbtriple list \<times> u8 list) list \<Rightarrow> bool" where
  "rows_ok width padding rows \<longleftrightarrow> (\<forall>(row, pad) \<in> set rows. length row = width \<and> length pad = padding)"

lemma read_rows_enc:
  "rows_ok width padding rows \<Longrightarrow>
     read_rows (pre @ enc_rows rows @ post) (length pre) width padding (length rows) = Some (map fst rows)"
proof (induction rows arbitrary: pre)
  case (Cons r rows)
  obtain row pad where r: "r = (row, pad)" by (cases r)
  have len: "length row = width" "length pad = padding" and ok: "rows_ok width padding rows"
    using Cons.prems by (auto simp: rows_ok_def r)
  let ?pre = "pre @ concat (map enc_rgb row) @ pad"
  have bs: "pre @ enc_rows (r # rows) @ post = ?pre @ enc_rows rows @ post"
    by (simp add: enc_rows_def r)
  have l: "length (concat (map enc_rgb row)) = 3 * width" using rgb.length_concat_enc [of row] len by simp
  have "dec_seq dec_rgb 3 width (drop (length pre) (?pre @ enc_rows rows @ post)) = row"
    using rgb.dec_seq_concat [of row "pad @ enc_rows rows @ post"] len by simp
  moreover have "length pre + 3 * width + padding = length ?pre" using l len by simp
  ultimately show ?case
    using Cons.IH [OF ok, of ?pre] l unfolding bs by (simp add: r add.assoc)
qed simp

lemma write_rows_enc:
  "concat (map (write_row padding) (map (map grey) pixels)) =
     enc_rows (map (\<lambda>row. (map grey row, replicate padding 0)) pixels)"
  by (induction pixels) (simp_all add: write_row_def enc_rows_def)

definition bmp_image ::
  "bmp_header \<Rightarrow> bmp_info_header \<Rightarrow> (rgbtriple list \<times> u8 list) list \<Rightarrow> bool" where
  "bmp_image header info rows \<longleftrightarrow>
     bfType header = 0x4d42 \<and> biBitCount info = 24 \<and> 0 < sint (biWidth info) \<and>
     sint (biHeight info) = int (length rows) \<and>
     rows_ok (nat (sint (biWidth info))) (row_padding (sint (biWidth info))) rows"

lemma gs_main_image:
  assumes img: "bmp_image header info rows" and gap: "unat (bfOffBits header) = 54 + length gap"
    and m: "malloc_ok (nat ((sint (biHeight info) * (3 * sint (biWidth info))) mod 2 ^ 64))"
    and argv: "2 \<le> length argv"
  shows "gs_main (Some (enc_header header @ enc_info info @ gap @ enc_rows rows @ post)) malloc_ok out_ok argv =
    (if out_ok then Returns (enc_header header @ enc_info info @
       enc_rows (map (\<lambda>r. (map grey (fst r), replicate (row_padding (sint (biWidth info))) 0)) rows))
     else Undefined NullPointer)"
proof -
  let ?bs = "enc_header header @ enc_info info @ gap @ enc_rows rows @ post"
  have len: "length (enc_header header) = 14" "length (enc_info info) = 40"
    by (simp_all add: bmp.length_enc bmpinfo.length_enc)
  have hdr: "dec_header ?bs = header" by (rule bmp.dec_enc)
  have inf: "dec_info (drop 14 ?bs) = info" using bmpinfo.dec_enc [of info] by (simp add: len)
  have "read_rows ((enc_header header @ enc_info info @ gap) @ enc_rows rows @ post)
      (length (enc_header header @ enc_info info @ gap)) (nat (sint (biWidth info)))
      (row_padding (sint (biWidth info))) (length rows) = Some (map fst rows)"
    by (rule read_rows_enc) (use img in \<open>simp add: bmp_image_def\<close>)
  then have rd: "read_rows ?bs (unat (bfOffBits header)) (nat (sint (biWidth info)))
      (row_padding (sint (biWidth info))) (nat (sint (biHeight info))) = Some (map fst rows)"
    using img gap by (simp add: len bmp_image_def)
  have nlt: "\<not> length ?bs < 14" "\<not> length ?bs < 54" by (simp_all add: len)
  show ?thesis
    using img m argv nlt unfolding gs_main_def Let_def option.case hdr inf rd write_rows_enc
    by (simp add: bmp_image_def comp_def)
qed

subsection \<open>Properties\<close>

text \<open>
  (C18) The filter on a 24-bit image with its width in pixels positive and its rows bottom-up: whatever lies
  between the headers and the pixels, in the padding and after the image, the output is the same two
  headers followed by the rows in order, every pixel replaced by the rounded-down mean of its three
  components (which never overflows a byte) and every row padded with at most three zeros to a multiple
  of four bytes.  If the output cannot be created the program hands a null stream to \<open>fclose\<close>.
\<close>

theorem greyscale_output:
  assumes "bmp_image header info rows" and "unat (bfOffBits header) = 54 + length gap"
    and "malloc_ok (nat ((sint (biHeight info) * (3 * sint (biWidth info))) mod 2 ^ 64))" and "2 \<le> length argv"
  shows "gs_main (Some (enc_header header @ enc_info info @ gap @ enc_rows rows @ post)) malloc_ok out_ok argv =
      (if out_ok then Returns (enc_header header @ enc_info info @
         enc_rows (map (\<lambda>r. (map grey (fst r), replicate (row_padding (sint (biWidth info))) 0)) rows))
       else Undefined NullPointer) \<and>
    (\<forall>p. rgbtRed (grey p) = rgbtGreen (grey p) \<and> rgbtGreen (grey p) = rgbtBlue (grey p) \<and>
       unat (rgbtRed (grey p)) = (unat (rgbtRed p) + unat (rgbtGreen p) + unat (rgbtBlue p)) div 3) \<and>
    (3 * nat (sint (biWidth info)) + row_padding (sint (biWidth info))) mod 4 = 0 \<and>
    row_padding (sint (biWidth info)) < 4"
proof -
  have "0 \<le> sint (biWidth info)" using assms(1) by (simp add: bmp_image_def)
  moreover have "sint (biWidth info) < 2 ^ 31" using sint_lt [of "biWidth info"] by simp
  ultimately show ?thesis using gs_main_image [of header info rows gap malloc_ok argv post out_ok] assms grey_components row_padding_stride
    by blast
qed

definition demo_bmp_header :: bmp_header where
  "demo_bmp_header = \<lparr>bfType = 0x4d42, bfSize = 58, bfReserved1 = 0, bfReserved2 = 0, bfOffBits = 54\<rparr>"

definition demo_info :: bmp_info_header where
  "demo_info = \<lparr>biSize = 40, biWidth = 1, biHeight = 1, biPlanes = 1, biBitCount = 24, biCompression = 0,
     biSizeImage = 4, biXPelsPerMeter = 0, biYPelsPerMeter = 0, biClrUsed = 0, biClrImportant = 0\<rparr>"

lemma demo_image: "bmp_image demo_bmp_header demo_info [([p], [b])]"
  by (simp add: bmp_image_def demo_bmp_header_def demo_info_def rows_ok_def row_padding_def)

theorem greyscale_output_witness:
  "gs_main (Some (enc_header demo_bmp_header @ enc_info demo_info @ [] @
       enc_rows [([\<lparr>rgbtBlue = 10, rgbtGreen = 20, rgbtRed = 90\<rparr>], [7])] @ [])) (\<lambda>_. True) True [''main'', ''in.bmp''] =
   Returns (enc_header demo_bmp_header @ enc_info demo_info @ [40, 40, 40, 0])"
proof -
  have w: "sint (biWidth demo_info) = 1" "row_padding 1 = 1" by (simp_all add: demo_info_def row_padding_def)
  have "enc_rows [([grey \<lparr>rgbtBlue = 10, rgbtGreen = 20, rgbtRed = 90\<rparr>], [0])] = [40, 40, 40, 0]"
    by (simp add: enc_rows_def grey_def Let_def enc_rgb_def)
  then show ?thesis
    using greyscale_output [OF demo_image, of "[]" "\<lambda>_. True" "[''main'', ''in.bmp'']"
        "\<lparr>rgbtBlue = 10, rgbtGreen = 20, rgbtRed = 90\<rparr>" 7 "[]" True]
    by (simp add: w demo_bmp_header_def)
qed

text \<open>
  (C34) Filtering twice is filtering once: for an image whose pixels follow its headers directly, the
  output is an image of the same format and the filter leaves it as it is.
\<close>

theorem greyscale_idempotent:
  assumes "bmp_image header info rows" and "bfOffBits header = 54"
    and "malloc_ok (nat ((sint (biHeight info) * (3 * sint (biWidth info))) mod 2 ^ 64))" and "2 \<le> length argv"
    and "gs_main (Some (enc_header header @ enc_info info @ enc_rows rows)) malloc_ok True argv = Returns out"
  shows "gs_main (Some out) malloc_ok True argv = Returns out"
proof -
  define rows' where
    "rows' = map (\<lambda>r. (map grey (fst r), replicate (row_padding (sint (biWidth info))) (0 :: u8))) rows"
  have out: "out = enc_header header @ enc_info info @ enc_rows rows'"
    using gs_main_image [of header info rows "[]" malloc_ok argv "[]" True] assms by (simp add: rows'_def)
  have "bmp_image header info rows'" using assms(1) by (auto simp: bmp_image_def rows_ok_def rows'_def)
  moreover have "map (\<lambda>r. (map grey (fst r), replicate (row_padding (sint (biWidth info))) (0 :: u8))) rows' = rows'"
    by (simp add: rows'_def grey_grey)
  ultimately show ?thesis
    using gs_main_image [of header info rows' "[]" malloc_ok argv "[]" True] assms(2-4) unfolding out by simp
qed

theorem greyscale_idempotent_witness:
  "\<exists>out. gs_main (Some (enc_header demo_bmp_header @ enc_info demo_info @
       enc_rows [([\<lparr>rgbtBlue = 10, rgbtGreen = 20, rgbtRed = 90\<rparr>], [7])])) (\<lambda>_. True) True [''main'', ''in.bmp''] = Returns out \<and>
     gs_main (Some out) (\<lambda>_. True) True [''main'', ''in.bmp''] = Returns out"
proof -
  let ?p = "\<lparr>rgbtBlue = 10, rgbtGreen = 20, rgbtRed = 90\<rparr> :: rgbtriple"
  obtain out where out: "gs_main (Some (enc_header demo_bmp_header @ enc_info demo_info @ enc_rows [([?p], [7])]))
      (\<lambda>_. True) True [''main'', ''in.bmp''] = Returns out"
    using gs_main_image [OF demo_image, of "[]" "\<lambda>_. True" "[''main'', ''in.bmp'']" ?p 7 "[]" True]
    by (simp add: demo_bmp_header_def)
  then show ?thesis using greyscale_idempotent [OF demo_image _ _ _ out] by (auto simp: demo_bmp_header_def)
qed

end
