(* ===== verification/Poll_Table.thy ===== *)
theory Poll_Table
  imports C_Prelude
begin

text \<open>
  What the two chat servers (\<^verbatim>\<open>src/projects/networking/tcp-suite/server.c\<close> and
  \<^verbatim>\<open>src/projects/networking/mtls-chat/server.c\<close>) share: the \<open>pollfd\<close> array with its free slots marked
  \<open>-1\<close>, the effect of \<open>poll(2)\<close> on it, the search for the first free slot, the effects on descriptors,
  and a loop whose turns are driven by what the system calls of the turn return.
\<close>

subsection \<open>Entries and poll\<close>

record pollfd =
  pfd :: int
  events :: bool          \<comment> \<open>\<open>POLLIN\<close> requested\<close>
  revents :: bool         \<comment> \<open>\<open>POLLIN\<close> reported\<close>

text \<open>
  \<open>poll(fds, nfds, timeout)\<close> with result \<open>r\<close>, the kernel's view of which entries are readable given
  by \<open>ready\<close>: on failure nothing is written, otherwise \<open>revents\<close> of the first \<open>nfds\<close> entries is set, to
  zero for entries with a negative descriptor.
\<close>

definition poll_entry :: "int \<Rightarrow> bool \<Rightarrow> pollfd \<Rightarrow> pollfd" where
  "poll_entry r rdy p = p\<lparr>revents := 0 < r \<and> 0 \<le> pfd p \<and> events p \<and> rdy\<rparr>"

definition do_poll :: "int \<Rightarrow> (nat \<Rightarrow> bool) \<Rightarrow> int \<Rightarrow> pollfd list \<Rightarrow> pollfd list" where
  "do_poll r ready nfds t =
     (if r < 0 then t
      else map (\<lambda>i. if int i < nfds then poll_entry r (ready i) (t ! i) else t ! i) [0..<length t])"

datatype read_result = ReadError | ReadEof | ReadData "u8 list"

lemma length_do_poll [simp]: "length (do_poll r ready nfds t) = length t"
  by (simp add: do_poll_def)

lemma pfd_do_poll [simp]: "i < length t \<Longrightarrow> pfd (do_poll r ready nfds t ! i) = pfd (t ! i)"
  by (simp add: do_poll_def poll_entry_def)

lemma revents_do_poll:
  "i < length t \<Longrightarrow> 0 \<le> r \<Longrightarrow> int i < nfds \<Longrightarrow>
     revents (do_poll r ready nfds t ! i) \<longleftrightarrow> 0 < r \<and> 0 \<le> pfd (t ! i) \<and> events (t ! i) \<and> ready i"
  by (simp add: do_poll_def poll_entry_def)

subsection \<open>Slots\<close>

definition is_live :: "pollfd list \<Rightarrow> nat \<Rightarrow> bool" where
  "is_live t i \<longleftrightarrow> 2 \<le> i \<and> i < length t \<and> pfd (t ! i) \<noteq> - 1"

text \<open>The first index of the list whose slot is free: the \<open>for\<close> loop with its \<open>break\<close>.\<close>

fun first_free :: "pollfd list \<Rightarrow> nat list \<Rightarrow> nat option" where
  "first_free t [] = None"
| "first_free t (i # is) = (if pfd (t ! i) = - 1 then Some i else first_free t is)"

lemma first_free_Some:
  "first_free t is = Some i \<Longrightarrow> i \<in> set is \<and> pfd (t ! i) = - 1"
  by (induction "is") (auto split: if_splits)

lemma first_free_None: "first_free t is = None \<longleftrightarrow> (\<forall>i \<in> set is. pfd (t ! i) \<noteq> - 1)"
  by (induction "is") auto

lemma first_free_least:
  "first_free t [a..<b] = Some i \<Longrightarrow> a \<le> j \<Longrightarrow> j < i \<Longrightarrow> pfd (t ! j) \<noteq> - 1"
proof (induction "b - a" arbitrary: a)
  case (Suc n)
  then have u: "[a..<b] = a # [Suc a..<b]" by (simp add: upt_conv_Cons)
  show ?case
  proof (cases "pfd (t ! a) = - 1")
    case True
    with Suc.prems u show ?thesis by simp
  next
    case False
    then show ?thesis
      using Suc.hyps(1) [of "Suc a"] Suc.hyps(2) Suc.prems u by (cases "j = a") auto
  qed
qed simp

lemma is_live_update:
  "i < length t \<Longrightarrow> is_live (t[i := p]) j \<longleftrightarrow> (if j = i then 2 \<le> i \<and> pfd p \<noteq> - 1 else is_live t j)"
  by (auto simp: is_live_def)

lemma is_live_do_poll [simp]: "is_live (do_poll r ready nfds t) i = is_live t i"
  by (auto simp: is_live_def)

subsection \<open>Effects and turns\<close>

datatype net_event =
    NIo io
  | NWrite int "u8 list"      \<comment> \<open>bytes written to a descriptor\<close>
  | NClose int

datatype 's turn = Goes 's | Ends 's | Crashes ub

text \<open>Turns one after the other, each with what the system calls answer in that turn.\<close>

fun run_turns :: "('i \<Rightarrow> 's \<Rightarrow> 's turn) \<Rightarrow> 'i list \<Rightarrow> 's \<Rightarrow> 's turn" where
  "run_turns step [] s = Goes s"
| "run_turns step (i # is) s =
     (case step i s of Goes s' \<Rightarrow> run_turns step is s' | Ends s' \<Rightarrow> Ends s' | Crashes u \<Rightarrow> Crashes u)"

text \<open>The inputs are ones the environment can produce in the states they are given in.\<close>

fun env_ok :: "('i \<Rightarrow> 's \<Rightarrow> 's turn) \<Rightarrow> ('i \<Rightarrow> 's \<Rightarrow> bool) \<Rightarrow> 'i list \<Rightarrow> 's \<Rightarrow> bool" where
  "env_ok step ok [] s = True"
| "env_ok step ok (i # is) s =
     (ok i s \<and> (case step i s of Goes s' \<Rightarrow> env_ok step ok is s' | _ \<Rightarrow> True))"

lemma env_ok_True [simp]: "env_ok step (\<lambda>_ _. True) is s"
  by (induction "is" arbitrary: s) (auto split: turn.splits)

text \<open>
  The states a loop can be in after some turns, as an inductive relation: \<open>reaches step ok s s'\<close> when
  turns whose inputs the environment can produce lead from \<open>s\<close> to \<open>s'\<close>.
\<close>

inductive reaches :: "('i \<Rightarrow> 's \<Rightarrow> 's turn) \<Rightarrow> ('i \<Rightarrow> 's \<Rightarrow> bool) \<Rightarrow> 's \<Rightarrow> 's \<Rightarrow> bool"
  for step :: "'i \<Rightarrow> 's \<Rightarrow> 's turn" and ok :: "'i \<Rightarrow> 's \<Rightarrow> bool" where
  reaches_refl: "reaches step ok s s"
| reaches_turn: "ok i s \<Longrightarrow> step i s = Goes s1 \<Longrightarrow> reaches step ok s1 s2 \<Longrightarrow> reaches step ok s s2"

lemma reaches_run: "reaches step ok s s' \<longleftrightarrow> (\<exists>is. env_ok step ok is s \<and> run_turns step is s = Goes s')"
proof
  assume "reaches step ok s s'"
  then show "\<exists>is. env_ok step ok is s \<and> run_turns step is s = Goes s'"
  proof (induction rule: reaches.induct)
    case (reaches_refl s)
    show ?case by (intro exI [of _ "[]"]) simp
  next
    case (reaches_turn i s s1 s2)
    then obtain "is" where "env_ok step ok is s1" "run_turns step is s1 = Goes s2" by blast
    with reaches_turn.hyps show ?case by (intro exI [of _ "i # is"]) simp
  qed
next
  have "env_ok step ok is s \<Longrightarrow> run_turns step is s = Goes s' \<Longrightarrow> reaches step ok s s'" for "is"
  proof (induction "is" arbitrary: s)
    case (Cons i "is")
    then show ?case by (auto split: turn.splits intro: reaches.intros)
  qed (simp add: reaches.intros)
  then show "\<exists>is. env_ok step ok is s \<and> run_turns step is s = Goes s' \<Longrightarrow> reaches step ok s s'" by blast
qed

text \<open>A run that ends does so in a turn from a reachable state.\<close>

lemma run_ends_reaches:
  "env_ok step ok is s \<Longrightarrow> run_turns step is s = Ends s' \<Longrightarrow>
     \<exists>s1 i. reaches step ok s s1 \<and> ok i s1 \<and> step i s1 = Ends s'"
proof (induction "is" arbitrary: s)
  case (Cons i "is")
  show ?case
  proof (cases "step i s")
    case (Goes s1)
    then obtain s2 j where "reaches step ok s1 s2" "ok j s2" "step j s2 = Ends s'"
      using Cons.IH [of s1] Cons.prems by auto
    with Goes Cons.prems(1) show ?thesis by (auto intro: reaches_turn)
  qed (use Cons.prems in \<open>auto intro: reaches.intros\<close>)
qed simp

text \<open>
  The interface of a loop driven by its environment: an invariant of the loop's state that each turn
  keeps, for inputs the environment may produce, and that the turn never crashes on.
\<close>

locale turn_machine =
  fixes step :: "'i \<Rightarrow> 's \<Rightarrow> 's turn"
    and ok :: "'i \<Rightarrow> 's \<Rightarrow> bool"
    and inv :: "'s \<Rightarrow> bool"
  assumes goes: "inv s \<Longrightarrow> ok i s \<Longrightarrow> step i s = Goes s' \<Longrightarrow> inv s'"
    and ends: "inv s \<Longrightarrow> ok i s \<Longrightarrow> step i s = Ends s' \<Longrightarrow> inv s'"
begin

text \<open>The invariant holds in every reachable state, by induction on how it is reached.\<close>

lemma reaches_inv: "reaches step ok s s' \<Longrightarrow> inv s \<Longrightarrow> inv s'"
  by (induction rule: reaches.induct) (auto intro: goes)

lemma run_goes: "inv s \<Longrightarrow> env_ok step ok is s \<Longrightarrow> run_turns step is s = Goes s' \<Longrightarrow> inv s'"
  using reaches_inv by (auto simp: reaches_run)

lemma run_ends: "inv s \<Longrightarrow> env_ok step ok is s \<Longrightarrow> run_turns step is s = Ends s' \<Longrightarrow> inv s'"
proof (induction "is" arbitrary: s)
  case (Cons i "is")
  then show ?case by (auto split: turn.splits dest: goes ends)
qed simp

end

locale safe_turn_machine = turn_machine +
  assumes no_crash: "inv s \<Longrightarrow> ok i s \<Longrightarrow> step i s \<noteq> Crashes u"
begin

lemma run_no_crash: "inv s \<Longrightarrow> env_ok step ok is s \<Longrightarrow> run_turns step is s \<noteq> Crashes u"
proof (induction "is" arbitrary: s)
  case (Cons i "is")
  then show ?case using no_crash by (auto split: turn.splits dest: goes)
qed simp

end

text \<open>A loop that neither ends nor crashes.\<close>

locale endless_turn_machine = turn_machine +
  assumes progress: "inv s \<Longrightarrow> ok i s \<Longrightarrow> \<exists>s'. step i s = Goes s'"
begin

lemma run_total: "inv s \<Longrightarrow> env_ok step ok is s \<Longrightarrow> \<exists>s'. run_turns step is s = Goes s' \<and> inv s'"
proof (induction "is" arbitrary: s)
  case (Cons i "is")
  then obtain s1 where "step i s = Goes s1" using progress by fastforce
  with Cons show ?case by (auto dest: goes)
qed simp

end

sublocale endless_turn_machine \<subseteq> safe_turn_machine
proof unfold_locales
  fix s i u
  assume "inv s" "ok i s"
  then obtain s' where "step i s = Goes s'" using progress by blast
  then show "step i s \<noteq> Crashes u" by simp
qed

end
