(* ===== verification/Scheduler.thy ===== *)
theory Scheduler
  imports Main
begin

text \<open>
  Systems whose parts move in turn, in any order: a step relation, and beside it the same steps as
  actions that can be executed.  A schedule is a list of actions; an action that is not possible
  refuses the schedule.
\<close>

fun run_schedule :: "('a \<Rightarrow> 's \<Rightarrow> 's option) \<Rightarrow> 'a list \<Rightarrow> 's \<Rightarrow> 's option" where
  "run_schedule act [] s = Some s"
| "run_schedule act (a # as) s = (case act a s of None \<Rightarrow> None | Some s' \<Rightarrow> run_schedule act as s')"

lemma run_schedule_append:
  "run_schedule act (as @ bs) s = Option.bind (run_schedule act as s) (run_schedule act bs)"
  by (induction as arbitrary: s) (simp_all split: option.split)

text \<open>The interface: actions are steps and steps are actions, and steps keep an invariant.\<close>

locale scheduled =
  fixes step :: "'s \<Rightarrow> 's \<Rightarrow> bool"
    and act :: "'a \<Rightarrow> 's \<Rightarrow> 's option"
    and inv :: "'s \<Rightarrow> bool"
  assumes act_step: "act a s = Some s' \<Longrightarrow> step s s'"
    and step_act: "step s s' \<Longrightarrow> \<exists>a. act a s = Some s'"
    and step_inv: "step s s' \<Longrightarrow> inv s \<Longrightarrow> inv s'"
begin

lemma reaches_inv: "step\<^sup>*\<^sup>* s s' \<Longrightarrow> inv s \<Longrightarrow> inv s'"
  by (induction rule: rtranclp_induct) (auto intro: step_inv)

lemma schedule_reaches: "run_schedule act as s = Some s' \<Longrightarrow> step\<^sup>*\<^sup>* s s'"
  by (induction as arbitrary: s)
    (auto split: option.splits dest!: act_step intro: converse_rtranclp_into_rtranclp)

lemma reaches_schedule: "step\<^sup>*\<^sup>* s s' \<Longrightarrow> \<exists>as. run_schedule act as s = Some s'"
proof (induction rule: rtranclp_induct)
  case base
  show ?case by (intro exI [of _ "[]"]) simp
next
  case (step s1 s2)
  then obtain as a where "run_schedule act as s = Some s1" "act a s1 = Some s2" using step_act by blast
  then show ?case by (intro exI [of _ "as @ [a]"]) (simp add: run_schedule_append)
qed

text \<open>The states reached are those that some schedule computes.\<close>

lemma reaches_iff_schedule: "step\<^sup>*\<^sup>* s s' \<longleftrightarrow> (\<exists>as. run_schedule act as s = Some s')"
  using schedule_reaches reaches_schedule by blast

end

end
