(* ===== verification/Chat_Room.thy ===== *)
theory Chat_Room
  imports Poll_Table
begin

text \<open>
  What a chat server promises, without slots, arrays or \<open>poll\<close>: a room with members, who join and leave,
  are heard by the operator, and get what the operator says.  The two servers of the repository are shown
  to implement it in \<open>Tcp_Room\<close> and \<open>Mtls_Room\<close>; they differ in how much of a broadcast is promised.
\<close>

subsection \<open>The room\<close>

datatype ('c, 'e) room_action =
    Join 'c string               \<comment> \<open>a connection, with the address announced\<close>
  | Say "'c list" "u8 list"      \<comment> \<open>a line of the operator and who it is written to\<close>
  | Hear 'c "u8 list"
  | Leave 'c
  | Note "'e list"               \<comment> \<open>messages that concern no member\<close>

text \<open>
  One action in a room of at most \<open>cap\<close> members.  In an \<open>exact\<close> room the operator's line goes to every
  member, otherwise to some of them; to nobody else and at most once in both.
\<close>

inductive room_step ::
  "nat \<Rightarrow> bool \<Rightarrow> ('e \<Rightarrow> bool) \<Rightarrow> 'c set \<Rightarrow> ('c, 'e) room_action \<Rightarrow> 'c set \<Rightarrow> bool"
  for cap :: nat and exact :: bool and quiet :: "'e \<Rightarrow> bool" where
  join: "c \<notin> M \<Longrightarrow> finite M \<Longrightarrow> card M < cap \<Longrightarrow> room_step cap exact quiet M (Join c ip) (insert c M)"
| say: "distinct cs \<Longrightarrow> set cs \<subseteq> M \<Longrightarrow> (exact \<longrightarrow> set cs = M) \<Longrightarrow> room_step cap exact quiet M (Say cs buf) M"
| hear: "c \<in> M \<Longrightarrow> room_step cap exact quiet M (Hear c buf) M"
| leave: "c \<in> M \<Longrightarrow> room_step cap exact quiet M (Leave c) (M - {c})"
| remark: "list_all quiet es \<Longrightarrow> room_step cap exact quiet M (Note es) M"

inductive_simps room_step_simps [simp]:
  "room_step cap exact quiet M (Join c ip) M'"
  "room_step cap exact quiet M (Say cs buf) M'"
  "room_step cap exact quiet M (Hear c buf) M'"
  "room_step cap exact quiet M (Leave c) M'"
  "room_step cap exact quiet M (Note es) M'"

inductive room_run ::
  "nat \<Rightarrow> bool \<Rightarrow> ('e \<Rightarrow> bool) \<Rightarrow> 'c set \<Rightarrow> ('c, 'e) room_action list \<Rightarrow> 'c set \<Rightarrow> bool"
  for cap :: nat and exact :: bool and quiet :: "'e \<Rightarrow> bool" where
  room_nil: "room_run cap exact quiet M [] M"
| room_cons: "room_step cap exact quiet M a M1 \<Longrightarrow> room_run cap exact quiet M1 as M2 \<Longrightarrow>
     room_run cap exact quiet M (a # as) M2"

inductive_simps room_run_simps [simp]:
  "room_run cap exact quiet M [] M'"
  "room_run cap exact quiet M (a # as) M'"

lemma room_run_append [simp]:
  "room_run cap exact quiet M (as @ bs) M2 \<longleftrightarrow>
     (\<exists>M1. room_run cap exact quiet M as M1 \<and> room_run cap exact quiet M1 bs M2)"
  by (induction as arbitrary: M) auto

text \<open>The room is never over-full.\<close>

lemma room_run_card:
  "room_run cap exact quiet M as M' \<Longrightarrow> finite M \<Longrightarrow> card M \<le> cap \<Longrightarrow> finite M' \<and> card M' \<le> cap"
proof (induction rule: room_run.induct)
  case (room_cons M a M1 as M2)
  have "finite M1 \<and> card M1 \<le> cap"
    using room_cons.hyps(1) room_cons.prems
    by (cases rule: room_step.cases) (auto simp: card_Diff_singleton_if)
  with room_cons.IH show ?case by blast
qed simp

subsection \<open>What a member gets\<close>

text \<open>The operator's bytes, and those of them that are written to \<open>c\<close>.\<close>

fun said :: "('c, 'e) room_action list \<Rightarrow> u8 list" where
  "said [] = []"
| "said (Say cs buf # as) = buf @ said as"
| "said (a # as) = said as"

fun got :: "'c \<Rightarrow> ('c, 'e) room_action list \<Rightarrow> u8 list" where
  "got c [] = []"
| "got c (Say cs buf # as) = (if c \<in> set cs then buf else []) @ got c as"
| "got c (a # as) = got c as"

lemma said_append [simp]: "said (as @ bs) = said as @ said bs"
  by (induction as rule: said.induct) auto

lemma got_append [simp]: "got c (as @ bs) = got c as @ got c bs"
  by (induction c as rule: got.induct) auto

text \<open>A member who stays hears, in an exact room, everything that is said; one who is away nothing.\<close>

lemma got_member:
  assumes "room_run cap True quiet M as M'" and "c \<in> M" and "Leave c \<notin> set as"
  shows "got c as = said as"
  using assms
proof (induction rule: room_run.induct)
  case (room_cons M a M1 as M2)
  from room_cons.hyps(1) room_cons.prems room_cons.IH show ?case
    by (cases rule: room_step.cases) auto
qed simp

lemma got_stranger:
  assumes "room_run cap exact quiet M as M'" and "c \<notin> M" and "\<And>ip. Join c ip \<notin> set as"
  shows "got c as = [] \<and> c \<notin> M'"
  using assms
proof (induction rule: room_run.induct)
  case (room_cons M a M1 as M2)
  from room_cons.hyps(1) room_cons.prems(1) room_cons.prems(2) [of ip for ip] show ?case
    using room_cons.IH room_cons.prems(2) by (cases rule: room_step.cases) (auto simp: subset_iff)
qed simp

text \<open>Whoever is in the room at the end joined at some point and has been there since.\<close>

lemma member_joined:
  assumes "room_run cap exact quiet M as M'" and "c \<in> M'" and "c \<notin> M"
  shows "\<exists>pre ip post M1. as = pre @ Join c ip # post \<and> Leave c \<notin> set post \<and>
    room_run cap exact quiet (insert c M1) post M'"
proof -
  have "\<exists>xs ys M1. as = xs @ ys \<and> Leave c \<notin> set ys \<and> room_run cap exact quiet M1 ys M' \<and> c \<notin> M1"
  proof (cases "Leave c \<in> set as")
    case True
    then obtain xs ys where xs: "as = xs @ Leave c # ys" "Leave c \<notin> set ys" by (metis split_list_last)
    with assms(1) obtain M1 where "room_run cap exact quiet M1 ys M'" "c \<notin> M1" by auto
    with xs show ?thesis by (intro exI [of _ "xs @ [Leave c]"] exI [of _ ys] exI [of _ M1]) simp
  qed (use assms in \<open>force intro: exI [of _ "[]"]\<close>)
  then obtain xs ys M1 where ys: "as = xs @ ys" "Leave c \<notin> set ys" "room_run cap exact quiet M1 ys M'" "c \<notin> M1"
    by blast
  then obtain ip where "Join c ip \<in> set ys" using got_stranger [OF ys(3,4)] assms(2) by blast
  then obtain us vs where us: "ys = us @ Join c ip # vs" by (metis split_list)
  then obtain M2 where "room_run cap exact quiet (insert c M2) vs M'" using ys(3) by auto
  with ys us show ?thesis by (intro exI [of _ "xs @ us"]) auto
qed

lemma member_got_all:
  assumes "room_run cap True quiet {} as M" and "c \<in> M"
  shows "\<exists>pre ip post. as = pre @ Join c ip # post \<and> Leave c \<notin> set post \<and> got c post = said post"
proof -
  obtain pre ip post M1 where post: "as = pre @ Join c ip # post" "Leave c \<notin> set post"
    "room_run cap True quiet (insert c M1) post M"
    using member_joined [OF assms(1,2)] by auto
  have "got c post = said post" by (rule got_member [OF post(3) _ post(2)]) simp
  with post(1,2) show ?thesis by blast
qed

subsection \<open>A server that implements a room\<close>

text \<open>
  The interface: a loop with an invariant, how to read the members and the history off its state, how
  the actions look in the history, and that every turn of the loop is some actions of the room.
\<close>

locale room_server = turn_machine step ok inv
  for step :: "'i \<Rightarrow> 's \<Rightarrow> 's turn" and ok :: "'i \<Rightarrow> 's \<Rightarrow> bool" and inv :: "'s \<Rightarrow> bool" +
  fixes cap :: nat
    and exact :: bool
    and quiet :: "'e \<Rightarrow> bool"
    and members :: "'s \<Rightarrow> 'c set"
    and history :: "'s \<Rightarrow> 'e list"
    and render :: "('c, 'e) room_action \<Rightarrow> 'e list"
  assumes turn_refines: "inv s \<Longrightarrow> ok i s \<Longrightarrow> step i s = Goes s' \<Longrightarrow>
      \<exists>as. room_run cap exact quiet (members s) as (members s') \<and>
        history s' = history s @ concat (map render as)"
begin

lemma run_refines:
  "reaches step ok s s' \<Longrightarrow> inv s \<Longrightarrow>
     \<exists>as. room_run cap exact quiet (members s) as (members s') \<and>
       history s' = history s @ concat (map render as)"
proof (induction rule: reaches.induct)
  case (reaches_refl s)
  show ?case by (intro exI [of _ "[]"]) simp
next
  case (reaches_turn i s s1 s2)
  obtain as where "room_run cap exact quiet (members s) as (members s1)"
    "history s1 = history s @ concat (map render as)"
    using turn_refines [OF reaches_turn.prems reaches_turn.hyps(1,2)] by blast
  moreover obtain bs where "room_run cap exact quiet (members s1) bs (members s2)"
    "history s2 = history s1 @ concat (map render bs)"
    using reaches_turn.IH goes [OF reaches_turn.prems reaches_turn.hyps(1,2)] by blast
  ultimately show ?case by (intro exI [of _ "as @ bs"]) auto
qed

end

text \<open>
  Composing the parts of a turn: one state is followed by another when some actions lead from the one to
  the other.
\<close>

definition follows ::
  "nat \<Rightarrow> bool \<Rightarrow> ('e \<Rightarrow> bool) \<Rightarrow> (('c, 'e) room_action \<Rightarrow> 'e list) \<Rightarrow> 'c set \<times> 'e list \<Rightarrow> 'c set \<times> 'e list \<Rightarrow> bool" where
  "follows cap exact quiet render p q \<longleftrightarrow>
     (\<exists>as. room_run cap exact quiet (fst p) as (fst q) \<and> snd q = snd p @ concat (map render as))"

lemma follows_refl: "follows cap exact quiet render p p"
  unfolding follows_def by (intro exI [of _ "[]"]) simp

lemma follows_trans:
  "follows cap exact quiet render p q \<Longrightarrow> follows cap exact quiet render q r \<Longrightarrow>
     follows cap exact quiet render p r"
proof -
  assume "follows cap exact quiet render p q" "follows cap exact quiet render q r"
  then obtain as bs where "room_run cap exact quiet (fst p) as (fst q)" "snd q = snd p @ concat (map render as)"
    "room_run cap exact quiet (fst q) bs (fst r)" "snd r = snd q @ concat (map render bs)"
    unfolding follows_def by blast
  then show ?thesis unfolding follows_def by (intro exI [of _ "as @ bs"]) auto
qed

lemma follows_action:
  "room_step cap exact quiet M a M' \<Longrightarrow> h' = h @ render a \<Longrightarrow>
     follows cap exact quiet render (M, h) (M', h')"
  unfolding follows_def by (intro exI [of _ "[a]"]) auto

end
