(* ===== verification/Tcp_Server.thy ===== *)
theory Tcp_Server
  imports Poll_Table C_Bytes
begin

text \<open>
  \<^verbatim>\<open>src/projects/networking/tcp-suite/server.c\<close>: the plain TCP chat server.  Its state is the \<open>pollt\<close>
  array with \<open>nfds\<close> and the effects so far; one turn of the \<open>for (;;)\<close> loop is a function of what
  \<open>poll\<close>, \<open>accept\<close> and the \<open>read\<close>s of that turn return.  The entries of \<open>pollt\<close> from index 2 on are not
  initialised except for their descriptor; their initial contents are a parameter.
\<close>

definition MAX_CLIENTS :: nat where "MAX_CLIENTS = 100"

record tcp_server =
  pollt :: "pollfd list"
  nfds :: int
  log :: "net_event list"

text \<open>What the system calls of one turn return; \<open>accepted\<close> is the new descriptor and the peer's address.\<close>

record tcp_round =
  poll_ret :: int
  ready :: "nat \<Rightarrow> bool"
  accepted :: "(int \<times> string) option"
  stdin_read :: read_result
  client_read :: "nat \<Rightarrow> read_result"

definition tell :: "net_event list \<Rightarrow> tcp_server \<Rightarrow> tcp_server" where
  "tell es st = st\<lparr>log := log st @ es\<rparr>"

subsection \<open>Setting up\<close>

definition tcp_init :: "int \<Rightarrow> pollfd list \<Rightarrow> tcp_server" where
  "tcp_init socket_fd garbage =
     \<lparr>pollt =
        \<lparr>pfd = socket_fd, events = True, revents = False\<rparr> #
        \<lparr>pfd = 0, events = True, revents = False\<rparr> #
        map (\<lambda>i. if i \<le> MAX_CLIENTS then (garbage ! i)\<lparr>pfd := - 1\<rparr> else garbage ! i) [2..<MAX_CLIENTS + 2],
      nfds = 2, log = []\<rparr>"

text \<open>
  The part of \<open>main\<close> before the loop: argument count, \<open>socket\<close>, the address, \<open>bind\<close>, \<open>listen\<close>.  The
  results of the calls are given; \<open>Inl\<close> is the exit status with what was done before.  Both error
  paths after \<open>socket\<close> jump to \<open>cleanup\<close>, which reads \<open>nfds\<close> before its declaration has been executed.
\<close>

definition tcp_address :: "(string \<Rightarrow> u32) \<Rightarrow> string list \<Rightarrow> sockaddr_in" where
  "tcp_address inet_addr argv =
     \<lparr>sin_family = AF_INET, sin_port = htons (word_of_int (atoi (argv ! 2))),
      sin_addr = inet_addr (argv ! 1)\<rparr>"

definition tcp_setup ::
  "int \<Rightarrow> (sockaddr_in \<Rightarrow> bool) \<Rightarrow> bool \<Rightarrow> (string \<Rightarrow> u32) \<Rightarrow> pollfd list \<Rightarrow> string list \<Rightarrow>
     (net_event list \<times> int cres) + tcp_server" where
  "tcp_setup socket_fd bind_ok listen_ok inet_addr garbage argv =
     (if length argv \<noteq> 3 then Inl ([NIo (Out (''Usage: ./server <IP> <PORT>'' @ [NL]))], Inr 1)
      else if socket_fd < 0 then Inl ([NIo (Perror ''Socket error'')], Inr 1)
      else if \<not> bind_ok (tcp_address inet_addr argv)
        then Inl ([NIo (Perror ''Bind''), NClose socket_fd], Inl UninitRead)
      else if \<not> listen_ok then Inl ([NIo (Perror ''Listen''), NClose socket_fd], Inl UninitRead)
      else Inr (tcp_init socket_fd garbage))"

subsection \<open>One turn\<close>

definition place_client :: "int \<Rightarrow> nat \<Rightarrow> tcp_server \<Rightarrow> tcp_server" where
  "place_client client_fd i st =
     st\<lparr>pollt := (pollt st)[i := (pollt st ! i)\<lparr>pfd := client_fd, events := True\<rparr>],
        nfds := (if nfds st \<le> int i then int i + 1 else nfds st)\<rparr>"

text \<open>Accepting a client: \<open>None\<close> is the \<open>continue\<close> after a failed \<open>accept\<close>.\<close>

definition tcp_accept :: "tcp_round \<Rightarrow> tcp_server \<Rightarrow> tcp_server \<times> bool" where
  "tcp_accept rd st =
     (case accepted rd of
        None \<Rightarrow> (tell [NIo (Perror ''Accept'')] st, False)
      | Some (client_fd, client_ip) \<Rightarrow>
          (let st1 = tell [NIo (Out ([NL] @ ''[client connected: '' @ client_ip @ '']'' @ [NL]))] st
           in case first_free (pollt st1) [2..<MAX_CLIENTS + 1] of
                None \<Rightarrow> (st1, True)
              | Some i \<Rightarrow> (place_client client_fd i st1, True)))"

text \<open>The clients a broadcast goes to: the slots below \<open>nfds\<close> that are in use, in index order.\<close>

definition receivers :: "tcp_server \<Rightarrow> int list" where
  "receivers st = map (\<lambda>i. pfd (pollt st ! i)) (filter (\<lambda>i. pfd (pollt st ! i) \<noteq> - 1) [2..<nat (nfds st)])"

definition tcp_broadcast :: "tcp_round \<Rightarrow> tcp_server \<Rightarrow> tcp_server" where
  "tcp_broadcast rd st =
     (case stdin_read rd of
        ReadData buf \<Rightarrow>
          (let rs = receivers st in
           if rs = [] then tell [NIo (Out ([NL] @ ''[no clients connected]'' @ [NL]))] st
           else tell (map (\<lambda>fd. NWrite fd buf) rs) st)
      | _ \<Rightarrow> st)"

definition drop_client :: "nat \<Rightarrow> tcp_server \<Rightarrow> tcp_server" where
  "drop_client i st =
     tell [NClose (pfd (pollt st ! i))] (st\<lparr>pollt := (pollt st)[i := (pollt st ! i)\<lparr>pfd := - 1\<rparr>]\<rparr>)"

text \<open>
  The body of the client loop.  The final \<open>fwrite(buffer, 1, red, stdout)\<close> is reached on every path;
  after a failed \<open>read\<close> its count is \<open>(size_t)-1\<close>.
\<close>

definition serve_client :: "tcp_round \<Rightarrow> nat \<Rightarrow> tcp_server \<Rightarrow> tcp_server cres" where
  "serve_client rd i st =
     (if pfd (pollt st ! i) \<noteq> - 1 \<and> revents (pollt st ! i) then
        (case client_read rd i of
           ReadError \<Rightarrow> Inl OutOfBounds
         | ReadEof \<Rightarrow>
             Inr (drop_client i (tell [NIo (Out ([NL] @ ''[client disconnected]'' @ [NL]))] st))
         | ReadData buf \<Rightarrow> Inr (tell [NIo (Out (text_of buf))] st))
      else Inr st)"

fun serve_clients :: "tcp_round \<Rightarrow> nat list \<Rightarrow> tcp_server \<Rightarrow> tcp_server cres" where
  "serve_clients rd [] st = Inr st"
| "serve_clients rd (i # is) st =
     (case serve_client rd i st of Inl u \<Rightarrow> Inl u | Inr st' \<Rightarrow> serve_clients rd is st')"

text \<open>\<open>cleanup\<close>: the listening socket, then every client below \<open>nfds\<close>.\<close>

definition tcp_cleanup :: "int \<Rightarrow> tcp_server \<Rightarrow> tcp_server" where
  "tcp_cleanup socket_fd st = tell (NClose socket_fd # map NClose (receivers st)) st"

definition tcp_turn :: "int \<Rightarrow> tcp_round \<Rightarrow> tcp_server \<Rightarrow> tcp_server turn" where
  "tcp_turn socket_fd rd st =
     (let r = poll_ret rd;
          st1 = st\<lparr>pollt := do_poll r (ready rd) (nfds st) (pollt st)\<rparr>;
          (st2, go_on) = (if 0 < r \<and> revents (pollt st1 ! 0) then tcp_accept rd st1 else (st1, True))
      in if \<not> go_on then Goes st2
         else
           (let st3 = (if 0 < r \<and> revents (pollt st2 ! 1) then tcp_broadcast rd st2 else st2)
            in case serve_clients rd [2..<nat (nfds st3)] st3 of
                 Inl u \<Rightarrow> Crashes u
               | Inr st4 \<Rightarrow>
                   if r = - 1 then Ends (tcp_cleanup socket_fd (tell [NIo (Perror ''Poll'')] st4))
                   else Goes st4))"

subsection \<open>The invariant\<close>

text \<open>
  The client slots are 2 to \<open>MAX_CLIENTS\<close>; every client in a slot is among the \<open>nfds\<close> entries that
  \<open>poll\<close> watches, and no descriptor is in two slots.
\<close>

definition tcp_live :: "tcp_server \<Rightarrow> nat \<Rightarrow> bool" where
  "tcp_live st i \<longleftrightarrow> 2 \<le> i \<and> i \<le> MAX_CLIENTS \<and> pfd (pollt st ! i) \<noteq> - 1"

definition tcp_inv :: "tcp_server \<Rightarrow> bool" where
  "tcp_inv st \<longleftrightarrow>
     length (pollt st) = MAX_CLIENTS + 2 \<and> 2 \<le> nfds st \<and> nfds st \<le> int MAX_CLIENTS + 1 \<and>
     (\<forall>i. tcp_live st i \<longrightarrow> int i < nfds st \<and> 0 \<le> pfd (pollt st ! i)) \<and>
     (\<forall>i j. tcp_live st i \<and> tcp_live st j \<and> pfd (pollt st ! i) = pfd (pollt st ! j) \<longrightarrow> i = j)"

text \<open>The kernel hands out descriptors that are not in use.\<close>

definition tcp_ok :: "tcp_round \<Rightarrow> tcp_server \<Rightarrow> bool" where
  "tcp_ok rd st =
     (case accepted rd of
        None \<Rightarrow> True
      | Some (fd, ip) \<Rightarrow> 0 \<le> fd \<and> list_all (\<lambda>i. pfd (pollt st ! i) \<noteq> fd) [2..<MAX_CLIENTS + 1])"

lemma tcp_ok_live:
  "tcp_ok rd st \<longleftrightarrow>
     (\<forall>fd ip. accepted rd = Some (fd, ip) \<longrightarrow> 0 \<le> fd \<and> (\<forall>i. tcp_live st i \<longrightarrow> pfd (pollt st ! i) \<noteq> fd))"
proof (cases "accepted rd")
  case (Some p)
  obtain fd ip where p: "p = (fd, ip)" by (cases p)
  have "(\<forall>i. tcp_live st i \<longrightarrow> pfd (pollt st ! i) \<noteq> fd) \<longleftrightarrow>
      (\<forall>i \<in> set [2..<MAX_CLIENTS + 1]. pfd (pollt st ! i) \<noteq> fd)" if "0 \<le> fd"
    using that by (auto simp: tcp_live_def)
  then show ?thesis by (auto simp: tcp_ok_def list_all_iff Some p)
qed (simp add: tcp_ok_def)

lemma tcp_inv_init [wf_intros]: "tcp_inv (tcp_init socket_fd garbage)"
  by (auto simp: tcp_inv_def tcp_init_def tcp_live_def MAX_CLIENTS_def nth_Cons' simp del: upt_Suc)

lemma tcp_inv_tell [simp]: "tcp_inv (tell es st) = tcp_inv st"
  and tcp_live_tell [simp]: "tcp_live (tell es st) = tcp_live st"
  and pollt_tell [simp]: "pollt (tell es st) = pollt st"
  and nfds_tell [simp]: "nfds (tell es st) = nfds st"
  and log_tell [simp]: "log (tell es st) = log st @ es"
  by (auto simp: tell_def tcp_inv_def tcp_live_def)

text \<open>Only the descriptors matter to the invariant.\<close>

lemma tcp_inv_cong:
  assumes "length (pollt st') = length (pollt st)" and "nfds st' = nfds st"
    and "\<And>i. i < length (pollt st) \<Longrightarrow> pfd (pollt st' ! i) = pfd (pollt st ! i)" and "tcp_inv st"
  shows "tcp_inv st'" and "tcp_live st' = tcp_live st"
proof -
  have "length (pollt st) = MAX_CLIENTS + 2" using assms(4) by (simp add: tcp_inv_def)
  then have same: "pfd (pollt st' ! i) = pfd (pollt st ! i)" if "i \<le> MAX_CLIENTS" for i
    using assms(3) that by simp
  then show live: "tcp_live st' = tcp_live st" by (auto simp: tcp_live_def fun_eq_iff)
  have "pfd (pollt st' ! i) = pfd (pollt st ! i)" if "tcp_live st i" for i
    using that same by (simp add: tcp_live_def)
  then show "tcp_inv st'"
    using assms(1,2,4) unfolding tcp_inv_def live by auto
qed

lemma tcp_inv_poll:
  assumes "tcp_inv st"
  shows "tcp_inv (st\<lparr>pollt := do_poll r rdy (nfds st) (pollt st)\<rparr>)"
    and "tcp_live (st\<lparr>pollt := do_poll r rdy (nfds st) (pollt st)\<rparr>) = tcp_live st"
  using tcp_inv_cong [of "st\<lparr>pollt := do_poll r rdy (nfds st) (pollt st)\<rparr>" st] assms by simp_all

lemma tcp_inv_place:
  assumes inv: "tcp_inv st" and i: "2 \<le> i" "i \<le> MAX_CLIENTS" "pfd (pollt st ! i) = - 1"
    and fd: "0 \<le> fd" "\<And>j. tcp_live st j \<Longrightarrow> pfd (pollt st ! j) \<noteq> fd"
  shows "tcp_inv (place_client fd i st)"
proof -
  let ?st' = "place_client fd i st"
  have len: "i < length (pollt st)" using inv i by (simp add: tcp_inv_def)
  have pf: "pfd (pollt ?st' ! j) = (if j = i then fd else pfd (pollt st ! j))" for j
    using len by (simp add: place_client_def)
  have live: "tcp_live ?st' j \<longleftrightarrow> j = i \<or> tcp_live st j" for j
    using i fd(1) pf by (auto simp: tcp_live_def)
  have nf: "nfds ?st' = max (nfds st) (int i + 1)" by (simp add: place_client_def)
  have "int j < nfds ?st' \<and> 0 \<le> pfd (pollt ?st' ! j)" if "tcp_live ?st' j" for j
    using that inv fd(1) unfolding live pf nf by (auto simp: tcp_inv_def)
  moreover have "j = k" if "tcp_live ?st' j" "tcp_live ?st' k" "pfd (pollt ?st' ! j) = pfd (pollt ?st' ! k)" for j k
    using that inv fd(2) unfolding live pf by (auto simp: tcp_inv_def split: if_splits)
  ultimately show ?thesis
    using inv i nf unfolding tcp_inv_def by (auto simp: place_client_def)
qed

lemma tcp_inv_accept:
  assumes "tcp_inv st" and "tcp_ok rd st"
  shows "tcp_inv (fst (tcp_accept rd st))"
proof (cases "accepted rd")
  case (Some p)
  obtain fd ip where p: "p = (fd, ip)" by (cases p)
  show ?thesis
  proof (cases "first_free (pollt st) [2..<MAX_CLIENTS + 1]")
    case (Some i)
    then have "2 \<le> i" "i \<le> MAX_CLIENTS" "pfd (pollt st ! i) = - 1"
      using first_free_Some [OF Some] by auto
    then show ?thesis
      using assms \<open>accepted rd = Some p\<close> p Some
      by (auto simp: tcp_accept_def Let_def tcp_ok_live intro!: tcp_inv_place)
  qed (use assms \<open>accepted rd = Some p\<close> p in \<open>simp add: tcp_accept_def Let_def\<close>)
qed (use assms in \<open>simp add: tcp_accept_def\<close>)

lemma tcp_inv_broadcast [simp]: "tcp_inv (tcp_broadcast rd st) = tcp_inv st"
  by (simp add: tcp_broadcast_def Let_def split: read_result.splits)

lemma tcp_inv_drop:
  assumes "tcp_inv st"
  shows "tcp_inv (drop_client i st)"
proof (cases "i < length (pollt st)")
  case True
  let ?st' = "drop_client i st"
  have pf: "pfd (pollt ?st' ! j) = (if j = i then - 1 else pfd (pollt st ! j))" for j
    using True by (simp add: drop_client_def)
  then have live: "tcp_live ?st' j \<longleftrightarrow> j \<noteq> i \<and> tcp_live st j" for j
    by (auto simp: tcp_live_def)
  show ?thesis
    using assms unfolding tcp_inv_def live pf by (auto simp: drop_client_def)
qed (use assms in \<open>simp add: drop_client_def list_update_beyond\<close>)

lemma tcp_inv_serve: "tcp_inv st \<Longrightarrow> serve_client rd i st = Inr st' \<Longrightarrow> tcp_inv st'"
  by (auto simp: serve_client_def tcp_inv_drop split: if_splits read_result.splits)

lemma tcp_inv_serves: "tcp_inv st \<Longrightarrow> serve_clients rd is st = Inr st' \<Longrightarrow> tcp_inv st'"
  by (induction "is" arbitrary: st) (auto split: sum.splits dest: tcp_inv_serve)

text \<open>A turn in three parts, with the invariant in between: the accept branch, the broadcast, the clients.\<close>

definition turn_accept :: "tcp_round \<Rightarrow> tcp_server \<Rightarrow> tcp_server \<times> bool" where
  "turn_accept rd st =
     (let st1 = st\<lparr>pollt := do_poll (poll_ret rd) (ready rd) (nfds st) (pollt st)\<rparr>
      in if 0 < poll_ret rd \<and> revents (pollt st1 ! 0) then tcp_accept rd st1 else (st1, True))"

definition turn_broadcast :: "tcp_round \<Rightarrow> tcp_server \<Rightarrow> tcp_server" where
  "turn_broadcast rd st = (if 0 < poll_ret rd \<and> revents (pollt st ! 1) then tcp_broadcast rd st else st)"

lemma tcp_turn_eq:
  "turn_accept rd st = (st2, go) \<Longrightarrow> tcp_turn socket_fd rd st =
     (if \<not> go then Goes st2
      else case serve_clients rd [2..<nat (nfds (turn_broadcast rd st2))] (turn_broadcast rd st2) of
          Inl u \<Rightarrow> Crashes u
        | Inr st4 \<Rightarrow> if poll_ret rd = - 1
            then Ends (tcp_cleanup socket_fd (tell [NIo (Perror ''Poll'')] st4)) else Goes st4)"
  unfolding tcp_turn_def turn_accept_def turn_broadcast_def Let_def by simp

lemma turn_accept_cases:
  assumes "tcp_inv st" and "tcp_ok rd st"
  defines "st1 \<equiv> st\<lparr>pollt := do_poll (poll_ret rd) (ready rd) (nfds st) (pollt st)\<rparr>"
  shows "turn_accept rd st = (st1, True) \<or> turn_accept rd st = tcp_accept rd st1"
    and "tcp_inv st1" and "tcp_ok rd st1" and "tcp_inv (fst (turn_accept rd st))"
proof -
  show inv1: "tcp_inv st1" unfolding st1_def by (rule tcp_inv_poll(1) [OF assms(1)])
  have "pfd (pollt st1 ! i) = pfd (pollt st ! i)" if "tcp_live st i" for i
    using that assms(1) by (auto simp: st1_def tcp_live_def tcp_inv_def)
  then show ok1: "tcp_ok rd st1"
    using assms(2) tcp_inv_poll(2) [OF assms(1), of "poll_ret rd" "ready rd"] by (auto simp: st1_def tcp_ok_live)
  show cases: "turn_accept rd st = (st1, True) \<or> turn_accept rd st = tcp_accept rd st1"
    by (simp add: turn_accept_def st1_def Let_def)
  then show "tcp_inv (fst (turn_accept rd st))" using inv1 tcp_inv_accept [OF inv1 ok1] by auto
qed

lemma tcp_inv_turn_broadcast [simp]: "tcp_inv (turn_broadcast rd st) = tcp_inv st"
  by (simp add: turn_broadcast_def)

lemma tcp_turn_inv:
  assumes "tcp_inv st" and "tcp_ok rd st"
    and "tcp_turn socket_fd rd st = Goes st' \<or> tcp_turn socket_fd rd st = Ends st'"
  shows "tcp_inv st'"
proof -
  obtain st2 go where acc: "turn_accept rd st = (st2, go)" by (cases "turn_accept rd st")
  then have "tcp_inv st2" using turn_accept_cases(4) [OF assms(1,2)] by simp
  with assms(3) show ?thesis
    unfolding tcp_turn_eq [OF acc]
    by (auto simp: tcp_cleanup_def split: if_splits sum.splits dest: tcp_inv_serves [rotated])
qed

interpretation tcp_server: turn_machine "tcp_turn socket_fd" tcp_ok tcp_inv for socket_fd
  by unfold_locales (blast intro: tcp_turn_inv)+

subsection \<open>Broadcast, capacity, client turns\<close>

lemma receivers_live:
  assumes "tcp_inv st"
  shows "set (receivers st) = {pfd (pollt st ! i) | i. tcp_live st i}" and "distinct (receivers st)"
proof -
  let ?is = "filter (\<lambda>i. pfd (pollt st ! i) \<noteq> - 1) [2..<nat (nfds st)]"
  have live: "i \<in> set ?is \<longleftrightarrow> tcp_live st i" for i
    using assms by (auto simp: tcp_inv_def tcp_live_def)
  then have "set (receivers st) = (\<lambda>i. pfd (pollt st ! i)) ` {i. tcp_live st i}"
    unfolding receivers_def set_map by blast
  then show "set (receivers st) = {pfd (pollt st ! i) | i. tcp_live st i}" by auto
  have "inj_on (\<lambda>i. pfd (pollt st ! i)) (set ?is)"
    using assms live unfolding inj_on_def tcp_inv_def by blast
  then show "distinct (receivers st)" by (simp add: receivers_def distinct_map)
qed

text \<open>What one readable client does to the log, and what is left of its slot.\<close>

definition client_active :: "tcp_server \<Rightarrow> nat \<Rightarrow> bool" where
  "client_active st i \<longleftrightarrow> pfd (pollt st ! i) \<noteq> - 1 \<and> revents (pollt st ! i)"

definition client_events :: "tcp_round \<Rightarrow> tcp_server \<Rightarrow> nat \<Rightarrow> net_event list" where
  "client_events rd st i =
     (if client_active st i then
        (case client_read rd i of
           ReadData buf \<Rightarrow> [NIo (Out (text_of buf))]
         | _ \<Rightarrow> [NIo (Out ([NL] @ ''[client disconnected]'' @ [NL])), NClose (pfd (pollt st ! i))])
      else [])"

definition client_gone :: "tcp_round \<Rightarrow> tcp_server \<Rightarrow> nat \<Rightarrow> bool" where
  "client_gone rd st i \<longleftrightarrow> client_active st i \<and> client_read rd i = ReadEof"

lemma serve_client_eq:
  assumes "\<not> (client_active st i \<and> client_read rd i = ReadError)"
  shows "serve_client rd i st =
    Inr (tell (client_events rd st i)
      (if client_gone rd st i then st\<lparr>pollt := (pollt st)[i := (pollt st ! i)\<lparr>pfd := - 1\<rparr>]\<rparr> else st))"
  using assms
  by (auto simp: serve_client_def client_active_def client_events_def client_gone_def drop_client_def
      tell_def split: read_result.splits)

lemma serve_clients_events:
  assumes "distinct is" and "\<forall>i \<in> set is. \<not> (client_active st i \<and> client_read rd i = ReadError)"
  shows "\<exists>st'. serve_clients rd is st = Inr st' \<and>
    log st' = log st @ concat (map (client_events rd st) is) \<and> nfds st' = nfds st \<and>
    length (pollt st') = length (pollt st) \<and>
    (\<forall>j < length (pollt st). pfd (pollt st' ! j) =
       (if j \<in> set is \<and> client_gone rd st j then - 1 else pfd (pollt st ! j)))"
  using assms
proof (induction "is" arbitrary: st)
  case (Cons i "is")
  define s1 where "s1 = tell (client_events rd st i)
    (if client_gone rd st i then st\<lparr>pollt := (pollt st)[i := (pollt st ! i)\<lparr>pfd := - 1\<rparr>]\<rparr> else st)"
  have step: "serve_client rd i st = Inr s1" using Cons.prems(2) by (simp add: serve_client_eq s1_def)
  have same: "pollt s1 ! j = pollt st ! j" if "j \<noteq> i" for j using that by (simp add: s1_def)
  then have act: "client_active s1 j = client_active st j" and ev: "client_events rd s1 j = client_events rd st j"
    and gone: "client_gone rd s1 j = client_gone rd st j" if "j \<noteq> i" for j
    using that by (auto simp: client_active_def client_events_def client_gone_def split: read_result.split)
  have "\<forall>j \<in> set is. \<not> (client_active s1 j \<and> client_read rd j = ReadError)"
    using Cons.prems act by (metis distinct.simps(2) list.set_intros(2))
  then obtain st' where st': "serve_clients rd is s1 = Inr st'"
    "log st' = log s1 @ concat (map (client_events rd s1) is)" "nfds st' = nfds s1"
    "length (pollt st') = length (pollt s1)"
    "\<forall>j < length (pollt s1). pfd (pollt st' ! j) =
       (if j \<in> set is \<and> client_gone rd s1 j then - 1 else pfd (pollt s1 ! j))"
    using Cons.IH [of s1] Cons.prems(1) by auto
  have "concat (map (client_events rd s1) is) = concat (map (client_events rd st) is)"
    using Cons.prems(1) ev by (intro arg_cong [where f = concat] map_cong) (metis distinct.simps(2))+
  moreover have s1: "log s1 = log st @ client_events rd st i" "nfds s1 = nfds st"
    "length (pollt s1) = length (pollt st)"
    by (simp_all add: s1_def)
  moreover have "pfd (pollt st' ! j) = (if j \<in> set (i # is) \<and> client_gone rd st j then - 1 else pfd (pollt st ! j))"
    if "j < length (pollt st)" for j
    using that st'(5) Cons.prems(1) same gone by (cases "j = i") (auto simp: s1_def)
  ultimately show ?case
    using step st'(1-4) by simp
qed simp

lemma serve_clients_error:
  assumes "distinct is" and "\<exists>i \<in> set is. client_active st i \<and> client_read rd i = ReadError"
  shows "serve_clients rd is st = Inl OutOfBounds"
  using assms
proof (induction "is" arbitrary: st)
  case (Cons i "is")
  show ?case
  proof (cases "client_active st i \<and> client_read rd i = ReadError")
    case True
    then show ?thesis by (simp add: serve_client_def client_active_def)
  next
    case False
    obtain s1 where s1: "serve_client rd i st = Inr s1" "\<forall>j. j \<noteq> i \<longrightarrow> pollt s1 ! j = pollt st ! j"
      using serve_client_eq [OF False] by simp
    then have "\<exists>j \<in> set is. client_active s1 j \<and> client_read rd j = ReadError"
      using Cons.prems False by (force simp: client_active_def)
    with Cons.IH [of s1] Cons.prems(1) s1(1) show ?thesis by simp
  qed
qed simp

subsection \<open>Properties\<close>


definition demo_round :: "(int \<times> string) option \<Rightarrow> (nat \<Rightarrow> bool) \<Rightarrow> (nat \<Rightarrow> read_result) \<Rightarrow> tcp_round" where
  "demo_round acc rdy reads =
     \<lparr>poll_ret = 1, ready = rdy, accepted = acc, stdin_read = ReadData [104, 105], client_read = reads\<rparr>"

definition demo_garbage :: "pollfd list" where
  "demo_garbage = replicate 102 \<lparr>pfd = 7, events = False, revents = False\<rparr>"

definition demo_run :: "tcp_round list" where
  "demo_run =
     [demo_round (Some (4, ''10.0.0.1'')) (\<lambda>i. i = 0) (\<lambda>_. ReadEof),
      demo_round (Some (5, ''10.0.0.2'')) (\<lambda>i. i = 0) (\<lambda>_. ReadEof),
      demo_round None (\<lambda>i. i = 2) (\<lambda>_. ReadEof)]"


text \<open>
  A line typed at the server goes to every connected client exactly once and to nobody else, in
  slot order; \<open>[no clients connected]\<close> is printed exactly when there is none.
\<close>

lemma tcp_broadcast_reaches_all:
  assumes "env_ok (tcp_turn socket_fd) tcp_ok rds (tcp_init socket_fd garbage)"
    and "run_turns (tcp_turn socket_fd) rds (tcp_init socket_fd garbage) = Goes st"
    and "stdin_read rd = ReadData buf"
  shows "if \<exists>i. tcp_live st i
    then (\<exists>fds. log (tcp_broadcast rd st) = log st @ map (\<lambda>fd. NWrite fd buf) fds \<and> distinct fds \<and>
            set fds = {pfd (pollt st ! i) | i. tcp_live st i})
    else log (tcp_broadcast rd st) = log st @ [NIo (Out ([NL] @ ''[no clients connected]'' @ [NL]))]"
proof -
  note live = receivers_live [OF tcp_server.run_goes [OF tcp_inv_init assms(1,2)]]
  show ?thesis
  proof (cases "\<exists>i. tcp_live st i")
    case True
    then have "set (receivers st) \<noteq> {}" unfolding live(1) by blast
    then have "log (tcp_broadcast rd st) = log st @ map (\<lambda>fd. NWrite fd buf) (receivers st)"
      by (simp add: tcp_broadcast_def assms(3))
    with live True show ?thesis by auto
  next
    case False
    then have "receivers st = []" using live(1) by simp
    with False show ?thesis by (simp add: tcp_broadcast_def assms(3))
  qed
qed

text \<open>
  (C28) The client loop of a turn: it prints what each readable client sent and closes and frees
  exactly the slots of the clients that disconnected, in slot order; but one failed \<open>read\<close> on any of
  them is undefined behaviour, since the error path falls through to \<open>fwrite\<close> with the count \<open>-1\<close>.
\<close>

theorem tcp_client_turns:
  fixes n :: nat
  shows "if \<exists>i \<in> {2..<n}. client_active st i \<and> client_read rd i = ReadError
    then serve_clients rd [2..<n] st = Inl OutOfBounds
    else (\<exists>st'. serve_clients rd [2..<n] st = Inr st' \<and>
      log st' = log st @ concat (map (client_events rd st) [2..<n]) \<and> nfds st' = nfds st \<and>
      (\<forall>j < length (pollt st). pfd (pollt st' ! j) =
         (if j \<in> {2..<n} \<and> client_gone rd st j then - 1 else pfd (pollt st ! j))))"
  using serve_clients_error [of "[2..<n]" st rd] serve_clients_events [of "[2..<n]" st rd] by auto

definition demo_two :: tcp_server where
  "demo_two = (case run_turns (tcp_turn 3) (take 2 demo_run) (tcp_init 3 demo_garbage) of
     Goes st \<Rightarrow> st\<lparr>pollt := do_poll 2 (\<lambda>i. i \<ge> 2) (nfds st) (pollt st)\<rparr> | Ends st \<Rightarrow> st
     | Crashes _ \<Rightarrow> tcp_init 3 [])"

theorem tcp_client_turns_witness:
  "serve_clients (demo_round None (\<lambda>_. False) (\<lambda>i. if i = 3 then ReadError else ReadData [65])) [2..<4] demo_two =
     Inl OutOfBounds"
proof -
  have "client_active demo_two 3" by code_simp
  then have "\<exists>i \<in> {2..<4}. client_active demo_two i \<and>
      client_read (demo_round None (\<lambda>_. False) (\<lambda>i. if i = 3 then ReadError else ReadData [65])) i = ReadError"
    by (intro bexI [of _ 3]) (simp_all add: demo_round_def)
  then show ?thesis
    using tcp_client_turns [of 4 demo_two
        "demo_round None (\<lambda>_. False) (\<lambda>i. if i = 3 then ReadError else ReadData [65])"]
    by simp
qed

text \<open>
  The table holds 99 clients.  When all of them are taken, a further connection is accepted and
  announced, but its descriptor is neither stored nor closed: nothing in the state refers to it.
\<close>

lemma tcp_accept_when_full:
  assumes "\<forall>i \<in> {2..MAX_CLIENTS}. pfd (pollt st ! i) \<noteq> - 1" and "accepted rd = Some (fd, ip)"
  shows "card {2..MAX_CLIENTS} = 99 \<and>
    tcp_accept rd st =
      (tell [NIo (Out ([NL] @ ''[client connected: '' @ ip @ '']'' @ [NL]))] st, True)"
proof -
  have "first_free (pollt st) [2..<MAX_CLIENTS + 1] = None"
    using assms(1) unfolding first_free_None by auto
  then have "tcp_accept rd st = (tell [NIo (Out ([NL] @ ''[client connected: '' @ ip @ '']'' @ [NL]))] st, True)"
    using assms(2) by (simp add: tcp_accept_def Let_def)
  moreover have "card {2..MAX_CLIENTS} = 99" by (simp add: MAX_CLIENTS_def)
  ultimately show ?thesis by blast
qed

end
