(* ===== verification/Tcp_Room.thy ===== *)
theory Tcp_Room
  imports Chat_Room Tcp_Server
begin

text \<open>
  The TCP server of \<^verbatim>\<open>src/projects/networking/tcp-suite/server.c\<close> implements an exact chat room of 99
  members (\<open>Chat_Room\<close>): its slot table, the bound \<open>nfds\<close> and the \<open>poll\<close> results are details.
\<close>

subsection \<open>Reading the room off the server\<close>

definition tcp_members :: "tcp_server \<Rightarrow> int set" where
  "tcp_members st = set (receivers st)"

fun tcp_quiet :: "net_event \<Rightarrow> bool" where
  "tcp_quiet (NIo _) = True"
| "tcp_quiet _ = False"

text \<open>How the actions look in the log.\<close>

fun tcp_render :: "(int, net_event) room_action \<Rightarrow> net_event list" where
  "tcp_render (Join fd ip) = [NIo (Out ([NL] @ ''[client connected: '' @ ip @ '']'' @ [NL]))]"
| "tcp_render (Say fds buf) =
     (if fds = [] then [NIo (Out ([NL] @ ''[no clients connected]'' @ [NL]))] else map (\<lambda>fd. NWrite fd buf) fds)"
| "tcp_render (Hear fd buf) = [NIo (Out (text_of buf))]"
| "tcp_render (Leave fd) = [NIo (Out ([NL] @ ''[client disconnected]'' @ [NL])), NClose fd]"
| "tcp_render (Note es) = es"

abbreviation tcp_follows :: "tcp_server \<Rightarrow> tcp_server \<Rightarrow> bool" where
  "tcp_follows st st' \<equiv>
     follows (MAX_CLIENTS - 1) True tcp_quiet tcp_render (tcp_members st, log st) (tcp_members st', log st')"

lemma tcp_members_live: "tcp_inv st \<Longrightarrow> tcp_members st = (\<lambda>i. pfd (pollt st ! i)) ` {i. tcp_live st i}"
  unfolding tcp_members_def receivers_live(1) by blast

lemma tcp_members_tell [simp]: "tcp_members (tell es st) = tcp_members st"
  by (simp add: tcp_members_def receivers_def)

lemma tcp_members_poll:
  "tcp_inv st \<Longrightarrow> tcp_members (st\<lparr>pollt := do_poll r rdy (nfds st) (pollt st)\<rparr>) = tcp_members st"
proof -
  assume inv: "tcp_inv st"
  have "pfd (do_poll r rdy (nfds st) (pollt st) ! i) = pfd (pollt st ! i)" if "tcp_live st i" for i
    using that inv by (auto simp: tcp_live_def tcp_inv_def)
  then show ?thesis
    unfolding tcp_members_live [OF inv] tcp_members_live [OF tcp_inv_poll(1) [OF inv]] tcp_inv_poll(2) [OF inv]
    by (intro image_cong) simp_all
qed

lemma tcp_members_card:
  assumes "tcp_inv st" and "2 \<le> i" "i \<le> MAX_CLIENTS" "\<not> tcp_live st i"
  shows "finite (tcp_members st) \<and> card (tcp_members st) < MAX_CLIENTS - 1"
proof -
  have "tcp_members st = (\<lambda>i. pfd (pollt st ! i)) ` {i. tcp_live st i}" using assms(1) by (rule tcp_members_live)
  moreover have "{i. tcp_live st i} \<subseteq> {2..MAX_CLIENTS} - {i}" using assms(4) by (auto simp: tcp_live_def)
  ultimately have "card (tcp_members st) \<le> card ({2..MAX_CLIENTS} - {i})"
    using card_image_le card_mono by (metis (no_types, lifting) finite_Diff finite_atLeastAtMost finite_subset le_trans)
  moreover have "card ({2..MAX_CLIENTS} - {i}) < MAX_CLIENTS - 1"
    using assms(2,3) by (simp add: MAX_CLIENTS_def)
  ultimately show ?thesis by (simp add: tcp_members_def)
qed

lemma tcp_members_place:
  assumes inv: "tcp_inv st" and i: "2 \<le> i" "i \<le> MAX_CLIENTS" "pfd (pollt st ! i) = - 1"
    and fd: "0 \<le> fd" "\<And>j. tcp_live st j \<Longrightarrow> pfd (pollt st ! j) \<noteq> fd"
  shows "tcp_members (place_client fd i st) = insert fd (tcp_members st)" (is "tcp_members ?st' = _")
proof -
  have inv': "tcp_inv ?st'" by (rule tcp_inv_place) (use assms in simp_all)
  have len: "i < length (pollt st)" using inv i by (simp add: tcp_inv_def)
  have pf: "pfd (pollt ?st' ! j) = (if j = i then fd else pfd (pollt st ! j))" for j
    using len by (simp add: place_client_def)
  have dead: "\<not> tcp_live st i" using i(3) by (simp add: tcp_live_def)
  have live: "{j. tcp_live ?st' j} = insert i {j. tcp_live st j}"
    using i fd(1) pf by (auto simp: tcp_live_def)
  show ?thesis
    unfolding tcp_members_live [OF inv'] tcp_members_live [OF inv] live
    using pf dead by (auto simp: image_iff)
qed

lemma tcp_members_drop:
  assumes inv: "tcp_inv st" and live: "tcp_live st i"
  shows "tcp_members (drop_client i st) = tcp_members st - {pfd (pollt st ! i)}" (is "tcp_members ?st' = _")
proof -
  have inv': "tcp_inv ?st'" using inv by (simp add: tcp_inv_drop)
  have len: "i < length (pollt st)" using inv live by (simp add: tcp_inv_def tcp_live_def)
  have pf: "pfd (pollt ?st' ! j) = (if j = i then - 1 else pfd (pollt st ! j))" for j
    using len by (simp add: drop_client_def)
  then have live': "{j. tcp_live ?st' j} = {j. tcp_live st j} - {i}" by (auto simp: tcp_live_def)
  have inj: "pfd (pollt st ! j) \<noteq> pfd (pollt st ! i)" if "tcp_live st j" "j \<noteq> i" for j
    using that live inv by (auto simp: tcp_inv_def)
  show ?thesis
    unfolding tcp_members_live [OF inv'] tcp_members_live [OF inv] live'
    using pf inj by (auto simp: image_iff)
qed

subsection \<open>Each part of a turn\<close>

lemma tcp_follows_note: "list_all tcp_quiet es \<Longrightarrow> tcp_follows st (tell es st)"
  by (rule follows_action [of _ _ _ _ "Note es"]) simp_all

lemma tcp_follows_join:
  assumes inv: "tcp_inv st" and i: "2 \<le> i" "i \<le> MAX_CLIENTS" "pfd (pollt st ! i) = - 1"
    and fd: "0 \<le> fd" "\<And>j. tcp_live st j \<Longrightarrow> pfd (pollt st ! j) \<noteq> fd"
  shows "tcp_follows st
    (place_client fd i (tell [NIo (Out ([NL] @ ''[client connected: '' @ ip @ '']'' @ [NL]))] st))"
    (is "tcp_follows st (place_client fd i ?st1)")
proof (rule follows_action [of _ _ _ _ "Join fd ip"])
  have "tcp_members (place_client fd i ?st1) = insert fd (tcp_members ?st1)"
    by (rule tcp_members_place) (use assms in simp_all)
  moreover have "fd \<notin> tcp_members st" using fd(2) by (auto simp: tcp_members_live [OF inv])
  moreover have "\<not> tcp_live st i" using i(3) by (simp add: tcp_live_def)
  ultimately show "room_step (MAX_CLIENTS - 1) True tcp_quiet (tcp_members st) (Join fd ip)
      (tcp_members (place_client fd i ?st1))"
    using tcp_members_card [OF inv i(1,2)] by simp
qed (simp add: place_client_def)

lemma tcp_follows_accept:
  assumes "tcp_inv st" and "tcp_ok rd st"
  shows "tcp_follows st (fst (tcp_accept rd st))"
proof (cases "accepted rd")
  case None
  then show ?thesis using tcp_follows_note [of "[NIo (Perror ''Accept'')]" st] by (simp add: tcp_accept_def)
next
  case (Some p)
  obtain fd ip where p: "accepted rd = Some (fd, ip)" using Some by (cases p) simp
  show ?thesis
  proof (cases "first_free (pollt st) [2..<MAX_CLIENTS + 1]")
    case None
    then show ?thesis using p tcp_follows_note [of _ st] by (simp add: tcp_accept_def Let_def)
  next
    case (Some i)
    then have "2 \<le> i" "i \<le> MAX_CLIENTS" "pfd (pollt st ! i) = - 1" using first_free_Some [OF Some] by auto
    then show ?thesis
      using assms p Some tcp_follows_join [of st i fd ip] by (auto simp: tcp_accept_def Let_def tcp_ok_live)
  qed
qed

lemma tcp_follows_broadcast:
  assumes "tcp_inv st"
  shows "tcp_follows st (tcp_broadcast rd st)"
proof (cases "stdin_read rd")
  case (ReadData buf)
  have "room_step (MAX_CLIENTS - 1) True tcp_quiet (tcp_members st) (Say (receivers st) buf) (tcp_members st)"
    using receivers_live(2) [OF assms] by (simp add: tcp_members_def)
  then show ?thesis
    using ReadData by (intro follows_action [of _ _ _ _ "Say (receivers st) buf"]) (auto simp: tcp_broadcast_def Let_def)
qed (simp_all add: tcp_broadcast_def follows_refl)

lemma tcp_follows_leave:
  assumes inv: "tcp_inv st" and live: "tcp_live st i"
  shows "tcp_follows st (drop_client i (tell [NIo (Out ([NL] @ ''[client disconnected]'' @ [NL]))] st))"
    (is "tcp_follows st (drop_client i ?st1)")
proof (rule follows_action [of _ _ _ _ "Leave (pfd (pollt st ! i))"])
  have "tcp_members (drop_client i ?st1) = tcp_members ?st1 - {pfd (pollt ?st1 ! i)}"
    by (rule tcp_members_drop) (use assms in simp_all)
  then show "room_step (MAX_CLIENTS - 1) True tcp_quiet (tcp_members st) (Leave (pfd (pollt st ! i)))
      (tcp_members (drop_client i ?st1))"
    using live by (simp add: tcp_members_live [OF inv])
qed (simp add: drop_client_def)

lemma tcp_follows_serve:
  assumes inv: "tcp_inv st" and i: "2 \<le> i" "int i < nfds st" and run: "serve_client rd i st = Inr st'"
  shows "tcp_follows st st' \<and> nfds st' = nfds st"
proof (cases "pfd (pollt st ! i) \<noteq> - 1 \<and> revents (pollt st ! i)")
  case True
  then have live: "tcp_live st i" using inv i by (simp add: tcp_live_def tcp_inv_def)
  show ?thesis
  proof (cases "client_read rd i")
    case ReadEof
    then show ?thesis using tcp_follows_leave [OF inv live] run True by (auto simp: serve_client_def drop_client_def)
  next
    case (ReadData buf)
    have "pfd (pollt st ! i) \<in> tcp_members st" using live by (simp add: tcp_members_live [OF inv])
    then show ?thesis
      using run True ReadData
      by (auto simp: serve_client_def intro!: follows_action [of _ _ _ _ "Hear (pfd (pollt st ! i)) buf"])
  qed (use run True in \<open>simp add: serve_client_def\<close>)
next
  case False
  then show ?thesis using run by (auto simp: serve_client_def follows_refl)
qed

lemma tcp_follows_serves:
  "tcp_inv st \<Longrightarrow> (\<And>i. i \<in> set is \<Longrightarrow> 2 \<le> i \<and> int i < nfds st) \<Longrightarrow> serve_clients rd is st = Inr st' \<Longrightarrow>
     tcp_follows st st'"
proof (induction "is" arbitrary: st)
  case (Cons i "is")
  then obtain s1 where s1: "serve_client rd i st = Inr s1" "serve_clients rd is s1 = Inr st'"
    by (auto split: sum.splits)
  have f: "tcp_follows st s1 \<and> nfds s1 = nfds st"
    by (rule tcp_follows_serve [OF Cons.prems(1) _ _ s1(1)]) (use Cons.prems(2) [of i] in auto)
  moreover have "tcp_follows s1 st'"
    by (rule Cons.IH) (use f s1 Cons.prems tcp_inv_serve in auto)
  ultimately show ?case by (blast intro: follows_trans)
qed (simp add: follows_refl)

text \<open>A whole turn, up to the clean-up that follows a failed \<open>poll\<close>.\<close>

lemma tcp_follows_turn:
  assumes "tcp_inv st" and "tcp_ok rd st"
  shows "tcp_turn socket_fd rd st = Goes st' \<Longrightarrow> tcp_follows st st'"
    and "tcp_turn socket_fd rd st = Ends st' \<Longrightarrow>
      \<exists>st4. tcp_follows st st4 \<and> st' = tcp_cleanup socket_fd (tell [NIo (Perror ''Poll'')] st4)"
proof -
  obtain st2 go where acc: "turn_accept rd st = (st2, go)" by (cases "turn_accept rd st")
  note cases = turn_accept_cases [OF assms] and turn = tcp_turn_eq [OF acc, of socket_fd]
  let ?st1 = "st\<lparr>pollt := do_poll (poll_ret rd) (ready rd) (nfds st) (pollt st)\<rparr>" and ?st3 = "turn_broadcast rd st2"
  have inv2: "tcp_inv st2" using cases(4) acc by simp
  have "tcp_follows st ?st1" using tcp_members_poll [OF assms(1)] by (simp add: follows_refl)
  moreover have "tcp_follows ?st1 st2"
    using cases(1) acc tcp_follows_accept [OF cases(2,3)] by (metis follows_refl fst_conv)
  ultimately have f2: "tcp_follows st st2" by (rule follows_trans)
  have "tcp_follows st2 ?st3" using tcp_follows_broadcast [OF inv2] by (simp add: turn_broadcast_def follows_refl)
  with f2 have f3: "tcp_follows st ?st3" by (rule follows_trans)
  have f4: "tcp_follows st st4" if "serve_clients rd [2..<nat (nfds ?st3)] ?st3 = Inr st4" for st4
    by (rule follows_trans [OF f3 tcp_follows_serves [OF _ _ that]]) (use inv2 in auto)
  show "tcp_turn socket_fd rd st = Goes st' \<Longrightarrow> tcp_follows st st'"
    and "tcp_turn socket_fd rd st = Ends st' \<Longrightarrow>
      \<exists>st4. tcp_follows st st4 \<and> st' = tcp_cleanup socket_fd (tell [NIo (Perror ''Poll'')] st4)"
    unfolding turn using f2 f4 by (auto split: if_splits sum.splits)
qed

interpretation tcp_room: room_server "tcp_turn socket_fd" tcp_ok tcp_inv "MAX_CLIENTS - 1" True tcp_quiet
  tcp_members log tcp_render for socket_fd
  by unfold_locales (use tcp_follows_turn(1) in \<open>auto simp: follows_def\<close>)

subsection \<open>Bytes on a connection\<close>

text \<open>What the server has written to a descriptor, as one stream.\<close>

fun written :: "int \<Rightarrow> net_event list \<Rightarrow> u8 list" where
  "written fd [] = []"
| "written fd (NWrite fd' buf # es) = (if fd' = fd then buf else []) @ written fd es"
| "written fd (e # es) = written fd es"

lemma written_append [simp]: "written fd (es @ es') = written fd es @ written fd es'"
  by (induction fd es rule: written.induct) auto

lemma written_quiet: "list_all tcp_quiet es \<Longrightarrow> written fd es = []"
  by (induction fd es rule: written.induct) auto

lemma written_say: "distinct fds \<Longrightarrow> written fd (map (\<lambda>fd. NWrite fd buf) fds) = (if fd \<in> set fds then buf else [])"
  by (induction fds) auto

lemma written_got:
  "room_run cap exact tcp_quiet M as M' \<Longrightarrow> written fd (concat (map tcp_render as)) = got fd as"
proof (induction rule: room_run.induct)
  case (room_cons M a M1 as M2)
  from room_cons.hyps(1) room_cons.IH show ?case
    by (cases rule: room_step.cases) (auto simp: written_quiet written_say)
qed simp

subsection \<open>Whole runs\<close>

abbreviation room99 :: "(int, net_event) room_action list \<Rightarrow> int set \<Rightarrow> bool" where
  "room99 as M \<equiv> room_run 99 True tcp_quiet {} as M"

lemma tcp_room_reaches:
  assumes "reaches (tcp_turn socket_fd) tcp_ok (tcp_init socket_fd garbage) st"
  shows "\<exists>as. room99 as (tcp_members st) \<and> log st = concat (map tcp_render as)"
proof -
  have "tcp_members (tcp_init socket_fd garbage) = {}" "log (tcp_init socket_fd garbage) = []" "MAX_CLIENTS - 1 = 99"
    by (simp_all add: tcp_members_def receivers_def tcp_init_def MAX_CLIENTS_def)
  then show ?thesis using tcp_room.run_refines [OF assms tcp_inv_init] by simp
qed

lemma tcp_member_written:
  assumes "room99 as M" and "fd \<in> M"
  shows "\<exists>pre ip post. as = pre @ Join fd ip # post \<and> Leave fd \<notin> set post \<and>
    written fd (concat (map tcp_render post)) = said post"
proof -
  obtain pre ip post where post: "as = pre @ Join fd ip # post" "Leave fd \<notin> set post" "got fd post = said post"
    using member_got_all [OF assms] by blast
  moreover obtain M1 where "room_run 99 True tcp_quiet M1 post M" using assms(1) post(1) by auto
  then have "written fd (concat (map tcp_render post)) = got fd post" by (rule written_got)
  ultimately show ?thesis by auto
qed

lemma tcp_room_ends:
  assumes "reaches (tcp_turn socket_fd) tcp_ok (tcp_init socket_fd garbage) s" and "tcp_ok rd s"
    and "tcp_turn socket_fd rd s = Ends st"
  shows "\<exists>as M fds. room99 as M \<and> distinct fds \<and> set fds = M \<and>
    log st = concat (map tcp_render as) @ NIo (Perror ''Poll'') # NClose socket_fd # map NClose fds"
proof -
  have inv: "tcp_inv s" by (rule tcp_server.reaches_inv [OF assms(1) tcp_inv_init])
  obtain st4 where st4: "tcp_follows s st4" "st = tcp_cleanup socket_fd (tell [NIo (Perror ''Poll'')] st4)"
    using tcp_follows_turn(2) [OF inv assms(2,3)] by blast
  have inv4: "tcp_inv st4" using tcp_server.ends [OF inv assms(2,3)] by (simp add: st4(2) tcp_cleanup_def)
  obtain as where as: "room99 as (tcp_members s)" "log s = concat (map tcp_render as)"
    using tcp_room_reaches [OF assms(1)] by blast
  have cap: "MAX_CLIENTS - 1 = 99" by (simp add: MAX_CLIENTS_def)
  obtain bs where bs: "room_run 99 True tcp_quiet (tcp_members s) bs (tcp_members st4)"
    "log st4 = log s @ concat (map tcp_render bs)"
    using st4(1) unfolding follows_def cap fst_conv snd_conv by blast
  have "room99 (as @ bs) (tcp_members st4)" using as(1) bs(1) by auto
  moreover have "distinct (receivers st4)" "set (receivers st4) = tcp_members st4"
    using receivers_live(2) [OF inv4] by (simp_all add: tcp_members_def)
  moreover have "log st = concat (map tcp_render (as @ bs)) @ NIo (Perror ''Poll'') # NClose socket_fd # map NClose (receivers st4)"
    using as(2) bs(2) by (simp add: st4(2) tcp_cleanup_def receivers_def)
  ultimately show ?thesis by blast
qed

subsection \<open>Properties\<close>



end
