(* ===== verification/Net_Clients.thy ===== *)
theory Net_Clients
  imports Tcp_Server
begin

text \<open>
  The two small clients: \<^verbatim>\<open>src/projects/networking/tcp-suite/client.c\<close>, which relays between the standard
  streams and a connection, and \<^verbatim>\<open>src/projects/networking/udp-messenger/main.c\<close>, which sends one message
  ten times.
\<close>

subsection \<open>The TCP client\<close>

text \<open>What \<open>poll\<close> reports and the two \<open>read\<close>s return in one turn of \<open>readaw\<close>.\<close>

record relay_round =
  r_poll :: int
  r_sock_ready :: bool
  r_stdin_ready :: bool
  r_sock_read :: read_result
  r_stdin_read :: read_result

datatype relay_event = ToStdout "u8 list" | ToServer "u8 list" | RelayIo io

definition readaw_turn :: "relay_round \<Rightarrow> relay_event list \<Rightarrow> relay_event list turn" where
  "readaw_turn rd lg =
     (let sock_step =
            (if 0 < r_poll rd \<and> r_sock_ready rd
             then (case r_sock_read rd of ReadData buf \<Rightarrow> Some (lg @ [ToStdout buf]) | _ \<Rightarrow> None)
             else Some lg)
      in case sock_step of
           None \<Rightarrow> Ends (lg @ [RelayIo (Err ''error'')])
         | Some lg1 \<Rightarrow>
             if 0 < r_poll rd \<and> r_stdin_ready rd
             then (case r_stdin_read rd of
                     ReadData buf \<Rightarrow> Goes (lg1 @ [ToServer buf])
                   | _ \<Rightarrow> Ends (lg1 @ [RelayIo (Err ''error'')]))
             else Goes lg1)"

definition client_address :: "(string \<Rightarrow> u32) \<Rightarrow> string list \<Rightarrow> sockaddr_in" where
  "client_address inet_addr argv =
     \<lparr>sin_family = AF_INET, sin_port = htons (word_of_int (atoi (argv ! 2))), sin_addr = inet_addr (argv ! 1)\<rparr>"

definition connectf :: "(sockaddr_in \<Rightarrow> bool) \<Rightarrow> sockaddr_in \<Rightarrow> string \<Rightarrow> io list \<times> bool" where
  "connectf connect_ok addr msg = (if connect_ok addr then ([], True) else ([Perror msg], False))"

text \<open>\<open>main\<close>: \<open>None\<close> while the relay goes on; after the connection attempt the status is always 0.\<close>

definition tcp_client_main ::
  "int \<Rightarrow> (sockaddr_in \<Rightarrow> bool) \<Rightarrow> (string \<Rightarrow> u32) \<Rightarrow> relay_round list \<Rightarrow> string list \<Rightarrow> (relay_event list \<times> int) option" where
  "tcp_client_main socket_fd connect_ok inet_addr rds argv =
     (if length argv \<noteq> 3 then Some ([RelayIo (Err (''Usage: ./client <IP> <PORT>'' @ [NL]))], 1)
      else if socket_fd < 0 then Some ([RelayIo (Perror ''Socket'')], 1)
      else case connectf connect_ok (client_address inet_addr argv) ''Connect'' of
        (es, False) \<Rightarrow> Some (map RelayIo es, 0)
      | (es, True) \<Rightarrow>
          (case run_turns readaw_turn rds [] of Ends lg \<Rightarrow> Some (lg, 0) | _ \<Rightarrow> None))"

subsection \<open>The UDP messenger\<close>

definition NUMBER :: nat where "NUMBER = 10"

datatype udp_event = Datagram string | UdpIo io

text \<open>
  \<open>sendf\<close>: \<open>write_ok i\<close> tells whether the \<open>i\<close>-th \<open>write\<close> of the message succeeds; then it returns the
  length of the message.  The result of the second \<open>write\<close> is not looked at.
\<close>

fun sendf_loop :: "(nat \<Rightarrow> bool) \<Rightarrow> string \<Rightarrow> nat list \<Rightarrow> udp_event list" where
  "sendf_loop write_ok arg [] = []"
| "sendf_loop write_ok arg (i # is) =
     (let n = (if write_ok i then int (length arg) else - 1) in
      (if write_ok i then [Datagram arg] else []) @
      (if n \<le> 0 then [UdpIo (Out ''Connection closed'')]
       else Datagram [NL] # sendf_loop write_ok arg is))"

definition sendf :: "(nat \<Rightarrow> bool) \<Rightarrow> string \<Rightarrow> udp_event list" where
  "sendf write_ok arg = sendf_loop write_ok arg [0..<NUMBER]"

definition udp_main ::
  "int \<Rightarrow> (sockaddr_in \<Rightarrow> bool) \<Rightarrow> (string \<Rightarrow> u32) \<Rightarrow> (nat \<Rightarrow> bool) \<Rightarrow> string list \<Rightarrow> udp_event list \<times> int" where
  "udp_main socket_fd connect_ok inet_addr write_ok argv =
     (if length argv \<noteq> 4 then ([UdpIo (Out ''Usage: ./main <IP> <PORT> <MESSAGE>'')], 1)
      else if socket_fd = - 1 then ([UdpIo (Perror ''Socket'')], 1)
      else case connectf connect_ok (client_address inet_addr argv) ''connect'' of
        (es, False) \<Rightarrow> (map UdpIo es, 1)
      | (_, True) \<Rightarrow> (sendf write_ok (argv ! 3), 0))"

subsection \<open>Lemmas\<close>

text \<open>What a turn of the relay passes on in each direction.\<close>

definition relayed :: "relay_round \<Rightarrow> relay_event list" where
  "relayed rd =
     (if 0 < r_poll rd then
        (if r_sock_ready rd then (case r_sock_read rd of ReadData buf \<Rightarrow> [ToStdout buf] | _ \<Rightarrow> []) else []) @
        (if r_stdin_ready rd then (case r_stdin_read rd of ReadData buf \<Rightarrow> [ToServer buf] | _ \<Rightarrow> []) else [])
      else [])"

definition closing :: "relay_round \<Rightarrow> bool" where
  "closing rd \<longleftrightarrow> 0 < r_poll rd \<and>
     (r_sock_ready rd \<and> (\<forall>buf. r_sock_read rd \<noteq> ReadData buf) \<or>
      r_stdin_ready rd \<and> (\<forall>buf. r_stdin_read rd \<noteq> ReadData buf))"

lemma readaw_turn_goes: "\<not> closing rd \<Longrightarrow> readaw_turn rd lg = Goes (lg @ relayed rd)"
  by (auto simp: readaw_turn_def closing_def relayed_def Let_def split: read_result.splits)

lemma readaw_turn_ends: "closing rd \<Longrightarrow> \<exists>es. readaw_turn rd lg = Ends (lg @ es @ [RelayIo (Err ''error'')]) \<and> length es \<le> 1"
  by (auto simp: readaw_turn_def closing_def Let_def split: read_result.splits)

lemma run_readaw_goes:
  "\<forall>rd \<in> set rds. \<not> closing rd \<Longrightarrow> run_turns readaw_turn (rds @ rest) lg =
     run_turns readaw_turn rest (lg @ concat (map relayed rds))"
  by (induction rds arbitrary: lg) (simp_all add: readaw_turn_goes)

text \<open>The messenger sends the message and the newline as datagrams of their own, ten times.\<close>

lemma sendf_all:
  "arg \<noteq> [] \<Longrightarrow> \<forall>i \<in> set is. write_ok i \<Longrightarrow>
     sendf_loop write_ok arg is = concat (replicate (length is) [Datagram arg, Datagram [NL]])"
  by (induction "is") simp_all

lemma sendf_stops:
  "\<forall>i \<in> set is. write_ok i \<Longrightarrow> arg \<noteq> [] \<Longrightarrow> \<not> write_ok j \<Longrightarrow>
     sendf_loop write_ok arg (is @ j # js) =
       concat (replicate (length is) [Datagram arg, Datagram [NL]]) @ [UdpIo (Out ''Connection closed'')]"
  by (induction "is") simp_all

subsection \<open>Properties\<close>

text \<open>
  The TCP client relays faithfully until a side closes: over the turns before that, what it has printed
  and sent is exactly what it read, in the order of the turns; the first turn in which a readable side is
  at its end or fails stops the program, with status 0, after at most one more relayed block.
\<close>

lemma tcp_client_relay:
  assumes "length argv = 3" and "0 \<le> fd" and "connect_ok (client_address inet_addr argv)"
    and "\<forall>rd \<in> set rds. \<not> closing rd"
  shows "tcp_client_main fd connect_ok inet_addr rds argv = None \<and>
    run_turns readaw_turn rds [] = Goes (concat (map relayed rds)) \<and>
    (closing rd \<longrightarrow> (\<exists>es. tcp_client_main fd connect_ok inet_addr (rds @ rd # rest) argv =
       Some (concat (map relayed rds) @ es @ [RelayIo (Err ''error'')], 0) \<and> length es \<le> 1))"
proof -
  have goes: "run_turns readaw_turn rds [] = Goes (concat (map relayed rds))"
    using run_readaw_goes [OF assms(4), of "[]" "[]"] by simp
  have "\<exists>es. run_turns readaw_turn (rds @ rd # rest) [] =
      Ends (concat (map relayed rds) @ es @ [RelayIo (Err ''error'')]) \<and> length es \<le> 1" if "closing rd"
    using readaw_turn_ends [OF that, of "concat (map relayed rds)"] run_readaw_goes [OF assms(4), of "rd # rest" "[]"]
    by auto
  with goes assms(1-3) show ?thesis by (auto simp: tcp_client_main_def connectf_def)
qed

end
