(* ===== verification/Chat_System.thy ===== *)
theory Chat_System
  imports Tcp_Room Net_Clients Scheduler "HOL-Library.Sublist"
begin

text \<open>
  The TCP chat as a whole: one server (\<^verbatim>\<open>src/projects/networking/tcp-suite/server.c\<close>) and any number of
  clients (\<^verbatim>\<open>src/projects/networking/tcp-suite/client.c\<close>) joined by connections that deliver bytes in order.
  A step is a new connection, a turn of the server's loop or of one client's loop, in any order; descriptors of the server
  are used again after they have been closed.
\<close>

subsection \<open>State\<close>

text \<open>
  A connection: the server's descriptor once it has been accepted (until then it is \<open>pending\<close>, and the
  client may already send), the bytes under way in both directions, the log of the client at its other
  end.  Two components only record what happened: how much the operator had typed when the connection was
  accepted, and what the server has read from it.
\<close>

record conn =
  pending :: bool
  c_fd :: int
  s_open :: bool            \<comment> \<open>the server has not closed it\<close>
  c_open :: bool            \<comment> \<open>the client runs\<close>
  down :: "u8 list"
  up :: "u8 list"
  c_log :: "relay_event list"
  c_from :: nat
  heard :: "u8 list"

record chat =
  srv :: tcp_server
  conns :: "conn list"
  typed :: "u8 list"        \<comment> \<open>what the server has read from its operator\<close>

definition fresh_conn :: conn where
  "fresh_conn =
     \<lparr>pending = True, c_fd = - 1, s_open = False, c_open = True, down = [], up = [], c_log = [], c_from = 0, heard = []\<rparr>"

subsection \<open>A turn of the server, seen from the network\<close>

text \<open>The connection accepted in the turn, if the accept branch is taken.\<close>

definition turn_connects :: "tcp_round \<Rightarrow> tcp_server \<Rightarrow> int list" where
  "turn_connects rd st =
     (let st1 = st\<lparr>pollt := do_poll (poll_ret rd) (ready rd) (nfds st) (pollt st)\<rparr>
      in if 0 < poll_ret rd \<and> revents (pollt st1 ! 0)
         then (case accepted rd of None \<Rightarrow> [] | Some (fd, ip) \<Rightarrow> [fd]) else [])"

text \<open>What the operator's \<open>read\<close> returns in the turn, if it is reached.\<close>

definition turn_typed :: "tcp_round \<Rightarrow> tcp_server \<Rightarrow> u8 list" where
  "turn_typed rd st =
     (case turn_accept rd st of (st2, go) \<Rightarrow>
        if go \<and> 0 < poll_ret rd \<and> revents (pollt st2 ! 1)
        then (case stdin_read rd of ReadData buf \<Rightarrow> buf | _ \<Rightarrow> []) else [])"

text \<open>What is read from a descriptor in the client loop of the turn, if it is reached.\<close>

definition turn_reads :: "tcp_round \<Rightarrow> tcp_server \<Rightarrow> int \<Rightarrow> u8 list" where
  "turn_reads rd st fd =
     (case turn_accept rd st of (st2, go) \<Rightarrow>
        if go then concat (map (\<lambda>i. if client_active st2 i \<and> pfd (pollt st2 ! i) = fd
          then (case client_read rd i of ReadData buf \<Rightarrow> buf | _ \<Rightarrow> []) else []) [2..<nat (nfds st2)])
        else [])"

definition new_events :: "tcp_server \<Rightarrow> tcp_server \<Rightarrow> net_event list" where
  "new_events st st' = drop (length (log st)) (log st')"

definition conn_turn :: "tcp_round \<Rightarrow> tcp_server \<Rightarrow> net_event list \<Rightarrow> conn \<Rightarrow> conn" where
  "conn_turn rd st es c =
     (if s_open c then
        c\<lparr>down := down c @ written (c_fd c) es,
          up := drop (length (turn_reads rd st (c_fd c))) (up c),
          heard := heard c @ turn_reads rd st (c_fd c),
          s_open := NClose (c_fd c) \<notin> set es\<rparr>
      else c)"

text \<open>The pending connection \<open>k\<close> is the one accepted, after \<open>n\<close> bytes of the operator.\<close>

definition admit :: "nat \<Rightarrow> int list \<Rightarrow> nat \<Rightarrow> conn list \<Rightarrow> conn list" where
  "admit k fds n cs =
     (case fds of
        [] \<Rightarrow> cs
      | fd # _ \<Rightarrow> cs[k := (cs ! k)\<lparr>pending := False, c_fd := fd, s_open := True, c_from := n\<rparr>])"

text \<open>
  What the kernel may answer: the connection accepted is a pending one and its descriptor is not in use,
  and what is read from a connection is the front of what is under way on it.
\<close>

definition net_ok :: "tcp_round \<Rightarrow> nat \<Rightarrow> chat \<Rightarrow> bool" where
  "net_ok rd k S \<longleftrightarrow>
     (case accepted rd of
        None \<Rightarrow> True
      | Some (fd, ip) \<Rightarrow> 0 \<le> fd \<and> list_all (\<lambda>c. s_open c \<longrightarrow> c_fd c \<noteq> fd) (conns S)) \<and>
     (turn_connects rd (srv S) \<noteq> [] \<longrightarrow> k < length (conns S) \<and> pending (conns S ! k)) \<and>
     list_all (\<lambda>c. s_open c \<longrightarrow> prefix (turn_reads rd (srv S) (c_fd c)) (up c))
       (admit k (turn_connects rd (srv S)) (length (typed S)) (conns S))"

definition server_step :: "tcp_round \<Rightarrow> nat \<Rightarrow> tcp_server \<Rightarrow> chat \<Rightarrow> chat" where
  "server_step rd k st' S =
     S\<lparr>srv := st',
       conns := map (conn_turn rd (srv S) (new_events (srv S) st'))
         (admit k (turn_connects rd (srv S)) (length (typed S)) (conns S)),
       typed := typed S @ turn_typed rd (srv S)\<rparr>"

subsection \<open>A turn of a client\<close>

fun printed :: "relay_event list \<Rightarrow> u8 list" where
  "printed [] = []"
| "printed (ToStdout buf # es) = buf @ printed es"
| "printed (e # es) = printed es"

fun sent :: "relay_event list \<Rightarrow> u8 list" where
  "sent [] = []"
| "sent (ToServer buf # es) = buf @ sent es"
| "sent (e # es) = sent es"

text \<open>
  The client has read the front of what was under way; at the end of the stream only if the server has
  closed and nothing is under way.
\<close>

definition client_ok :: "relay_round \<Rightarrow> conn \<Rightarrow> bool" where
  "client_ok rd c \<longleftrightarrow>
     c_open c \<and>
     (0 < r_poll rd \<and> r_sock_ready rd \<longrightarrow>
        (case r_sock_read rd of
           ReadData buf \<Rightarrow> prefix buf (down c)
         | ReadEof \<Rightarrow> \<not> pending c \<and> \<not> s_open c \<and> down c = []
         | ReadError \<Rightarrow> True))"

definition conn_relay :: "relay_round \<Rightarrow> conn \<Rightarrow> conn" where
  "conn_relay rd c =
     (let (lg, goes) = (case readaw_turn rd (c_log c) of Goes lg \<Rightarrow> (lg, True) | Ends lg \<Rightarrow> (lg, False)
          | Crashes u \<Rightarrow> (c_log c, False));
          es = drop (length (c_log c)) lg
      in c\<lparr>c_log := lg, c_open := goes, down := drop (length (printed es)) (down c), up := up c @ sent es\<rparr>)"

inductive chat_step :: "int \<Rightarrow> chat \<Rightarrow> chat \<Rightarrow> bool" for socket_fd :: int where
  connects: "chat_step socket_fd S (S\<lparr>conns := conns S @ [fresh_conn]\<rparr>)"
| server: "tcp_turn socket_fd rd (srv S) = Goes st' \<Longrightarrow> net_ok rd k S \<Longrightarrow>
    chat_step socket_fd S (server_step rd k st' S)"
| client: "k < length (conns S) \<Longrightarrow> client_ok rd (conns S ! k) \<Longrightarrow>
    chat_step socket_fd S (S\<lparr>conns := (conns S)[k := conn_relay rd (conns S ! k)]\<rparr>)"

definition chat_init :: "int \<Rightarrow> pollfd list \<Rightarrow> chat" where
  "chat_init socket_fd garbage = \<lparr>srv = tcp_init socket_fd garbage, conns = [], typed = []\<rparr>"

abbreviation chat_reaches :: "int \<Rightarrow> chat \<Rightarrow> chat \<Rightarrow> bool" where
  "chat_reaches socket_fd \<equiv> (chat_step socket_fd)\<^sup>*\<^sup>*"

subsection \<open>The server's turn\<close>

definition closed_in :: "net_event list \<Rightarrow> int set" where
  "closed_in es = {fd. NClose fd \<in> set es}"

lemma closed_in_append [simp]: "closed_in (es @ es') = closed_in es \<union> closed_in es'"
  by (auto simp: closed_in_def)

text \<open>The client loop writes nothing and closes exactly the connections of the members that leave.\<close>

lemma serve_client_net:
  assumes inv: "tcp_inv st" and i: "2 \<le> i" "int i < nfds st" and run: "serve_client rd i st = Inr st'"
  shows "\<exists>es. log st' = log st @ es \<and> (\<forall>fd. written fd es = []) \<and> tcp_members st' = tcp_members st - closed_in es"
proof (cases "client_active st i \<and> client_read rd i = ReadEof")
  case True
  have live: "tcp_live st i" using inv i True by (simp add: client_active_def tcp_live_def tcp_inv_def)
  have st': "st' = drop_client i (tell [NIo (Out ([NL] @ ''[client disconnected]'' @ [NL]))] st)"
    using run True by (simp add: serve_client_def client_active_def)
  have "tcp_members st' = tcp_members st - {pfd (pollt st ! i)}"
    unfolding st' by (subst tcp_members_drop) (use inv live in simp_all)
  then show ?thesis by (simp add: st' drop_client_def closed_in_def)
next
  case False
  then show ?thesis
    using run by (auto simp: serve_client_def client_active_def closed_in_def split: if_splits read_result.splits)
qed

lemma serve_clients_net:
  "tcp_inv st \<Longrightarrow> (\<And>i. i \<in> set is \<Longrightarrow> 2 \<le> i \<and> int i < nfds st) \<Longrightarrow> serve_clients rd is st = Inr st' \<Longrightarrow>
     \<exists>es. log st' = log st @ es \<and> (\<forall>fd. written fd es = []) \<and> tcp_members st' = tcp_members st - closed_in es"
proof (induction "is" arbitrary: st)
  case Nil
  then show ?case by (intro exI [of _ "[]"]) (simp add: closed_in_def)
next
  case (Cons i "is")
  then obtain s1 where s1: "serve_client rd i st = Inr s1" "serve_clients rd is s1 = Inr st'"
    by (auto split: sum.splits)
  have i: "2 \<le> i" "int i < nfds st" using Cons.prems(2) [of i] by auto
  obtain es where es: "log s1 = log st @ es" "\<forall>fd. written fd es = []" "tcp_members s1 = tcp_members st - closed_in es"
    using serve_client_net [OF Cons.prems(1) i s1(1)] by blast
  have n: "nfds s1 = nfds st" using tcp_follows_serve [OF Cons.prems(1) i s1(1)] by simp
  obtain es' where "log st' = log s1 @ es'" "\<forall>fd. written fd es' = []" "tcp_members st' = tcp_members s1 - closed_in es'"
    using Cons.IH [OF tcp_inv_serve [OF Cons.prems(1) s1(1)] _ s1(2)] Cons.prems(2) n by auto
  with es show ?case by (intro exI [of _ "es @ es'"]) auto
qed

lemma turn_broadcast_net:
  assumes "tcp_inv st" and "turn_accept rd st0 = (st, True)"
  shows "\<exists>es. log (turn_broadcast rd st) = log st @ es \<and> closed_in es = {} \<and>
    (\<forall>fd. written fd es = (if fd \<in> tcp_members st then turn_typed rd st0 else []))"
proof (cases "0 < poll_ret rd \<and> revents (pollt st ! 1)")
  case True
  then have typed: "turn_typed rd st0 = (case stdin_read rd of ReadData buf \<Rightarrow> buf | _ \<Rightarrow> [])"
    using assms(2) by (simp add: turn_typed_def)
  have d: "distinct (receivers st)" by (rule receivers_live(2) [OF assms(1)])
  show ?thesis
  proof (cases "stdin_read rd")
    case (ReadData buf)
    with True d typed show ?thesis
      by (cases "receivers st = []")
        (auto simp: turn_broadcast_def tcp_broadcast_def tcp_members_def written_say closed_in_def)
  qed (use True typed in \<open>auto simp: turn_broadcast_def tcp_broadcast_def closed_in_def\<close>)
next
  case False
  with assms(2) show ?thesis by (auto simp: turn_broadcast_def turn_typed_def closed_in_def)
qed

lemma tcp_accept_net:
  assumes inv: "tcp_inv st" and ok: "tcp_ok rd st"
  shows "\<exists>es. log (fst (tcp_accept rd st)) = log st @ es \<and> list_all tcp_quiet es"
    and "tcp_members (fst (tcp_accept rd st)) = tcp_members st \<or>
      (\<exists>fd ip. accepted rd = Some (fd, ip) \<and> tcp_members (fst (tcp_accept rd st)) = insert fd (tcp_members st))"
proof -
  show "\<exists>es. log (fst (tcp_accept rd st)) = log st @ es \<and> list_all tcp_quiet es"
    by (auto simp: tcp_accept_def Let_def place_client_def split: option.splits)
  show "tcp_members (fst (tcp_accept rd st)) = tcp_members st \<or>
      (\<exists>fd ip. accepted rd = Some (fd, ip) \<and> tcp_members (fst (tcp_accept rd st)) = insert fd (tcp_members st))"
  proof (cases "\<exists>fd ip i. accepted rd = Some (fd, ip) \<and> first_free (pollt st) [2..<MAX_CLIENTS + 1] = Some i")
    case True
    then obtain fd ip i where p: "accepted rd = Some (fd, ip)" "first_free (pollt st) [2..<MAX_CLIENTS + 1] = Some i" by blast
    let ?st1 = "tell [NIo (Out ([NL] @ ''[client connected: '' @ ip @ '']'' @ [NL]))] st"
    have "2 \<le> i" "i \<le> MAX_CLIENTS" "pfd (pollt st ! i) = - 1" using first_free_Some [OF p(2)] by auto
    then have "tcp_members (place_client fd i ?st1) = insert fd (tcp_members ?st1)"
      using inv ok p by (intro tcp_members_place) (auto simp: tcp_ok_live)
    with p show ?thesis by (simp add: tcp_accept_def Let_def)
  next
    case False
    then show ?thesis by (auto simp: tcp_accept_def Let_def split: option.splits)
  qed
qed

lemma turn_accept_net:
  assumes inv: "tcp_inv st" and ok: "tcp_ok rd st" and acc: "turn_accept rd st = (st2, go)"
  shows "\<exists>es. log st2 = log st @ es \<and> list_all tcp_quiet es"
    and "tcp_members st2 = tcp_members st \<or>
      (\<exists>fd. turn_connects rd st = [fd] \<and> tcp_members st2 = insert fd (tcp_members st))"
proof -
  let ?st1 = "st\<lparr>pollt := do_poll (poll_ret rd) (ready rd) (nfds st) (pollt st)\<rparr>"
  note net = tcp_accept_net [OF turn_accept_cases(2,3) [OF inv ok]] and poll = tcp_members_poll [OF inv]
  have goals: "(\<exists>es. log st2 = log st @ es \<and> list_all tcp_quiet es) \<and> (tcp_members st2 = tcp_members st \<or>
      (\<exists>fd. turn_connects rd st = [fd] \<and> tcp_members st2 = insert fd (tcp_members st)))"
  proof (cases "0 < poll_ret rd \<and> revents (pollt ?st1 ! 0)")
    case True
    then have st2: "st2 = fst (tcp_accept rd ?st1)" using acc by (simp add: turn_accept_def)
    have conn: "turn_connects rd st = [fd]" if "accepted rd = Some (fd, ip)" for fd ip
      using True that by (simp add: turn_connects_def)
    have "\<exists>es. log st2 = log st @ es \<and> list_all tcp_quiet es" using net(1) unfolding st2 by simp
    moreover have "tcp_members st2 = tcp_members st \<or>
        (\<exists>fd ip. accepted rd = Some (fd, ip) \<and> tcp_members st2 = insert fd (tcp_members st))"
      using net(2) unfolding st2 poll .
    ultimately show ?thesis using conn by blast
  next
    case False
    then have "st2 = ?st1" using acc by (auto simp: turn_accept_def Let_def)
    then show ?thesis using poll by simp
  qed
  then show "\<exists>es. log st2 = log st @ es \<and> list_all tcp_quiet es" by blast
  from goals show "tcp_members st2 = tcp_members st \<or>
      (\<exists>fd. turn_connects rd st = [fd] \<and> tcp_members st2 = insert fd (tcp_members st))" by blast
qed

lemma closed_in_quiet: "list_all tcp_quiet es \<Longrightarrow> closed_in es = {}"
  by (induction es) (auto simp: closed_in_def)

text \<open>
  What a turn does to the connections: the members after the accept branch get what the operator typed,
  nobody else gets anything, and the closed connections are those of the members that leave.
\<close>

lemma tcp_turn_net:
  assumes inv: "tcp_inv st" and ok: "tcp_ok rd st" and acc: "turn_accept rd st = (st2, go)"
    and run: "tcp_turn socket_fd rd st = Goes st'"
  shows "(\<forall>fd. written fd (new_events st st') = (if fd \<in> tcp_members st2 then turn_typed rd st else [])) \<and>
    tcp_members st' = tcp_members st2 - closed_in (new_events st st')"
proof -
  obtain es1 where es1: "log st2 = log st @ es1" "list_all tcp_quiet es1" using turn_accept_net(1) [OF inv ok acc] by blast
  show ?thesis
  proof (cases go)
    case False
    then have "st' = st2" using run unfolding tcp_turn_eq [OF acc] by simp
    with False es1 acc show ?thesis
      by (simp add: new_events_def written_quiet closed_in_quiet turn_typed_def)
  next
    case True
    have inv2: "tcp_inv st2" using turn_accept_cases(4) [OF inv ok] acc by simp
    let ?st3 = "turn_broadcast rd st2"
    obtain es2 where es2: "log ?st3 = log st2 @ es2" "closed_in es2 = {}"
      "\<forall>fd. written fd es2 = (if fd \<in> tcp_members st2 then turn_typed rd st else [])"
      using turn_broadcast_net [OF inv2 acc [unfolded eqTrueI [OF True]]] by blast
    have m3: "tcp_members ?st3 = tcp_members st2"
      by (simp add: turn_broadcast_def tcp_broadcast_def Let_def split: read_result.splits)
    have serve: "serve_clients rd [2..<nat (nfds ?st3)] ?st3 = Inr st'"
      using run True unfolding tcp_turn_eq [OF acc] by (auto split: sum.splits if_splits)
    have inv3: "tcp_inv ?st3" and range: "\<And>i. i \<in> set [2..<nat (nfds ?st3)] \<Longrightarrow> 2 \<le> i \<and> int i < nfds ?st3"
      using inv2 by auto
    obtain es3 where "log st' = log ?st3 @ es3" "\<forall>fd. written fd es3 = []"
      "tcp_members st' = tcp_members ?st3 - closed_in es3"
      using serve_clients_net [OF inv3 range serve] by blast
    with es1 es2 m3 show ?thesis
      by (simp add: new_events_def written_quiet closed_in_quiet)
  qed
qed

subsection \<open>The invariant of the whole\<close>

definition conn_inv :: "tcp_server \<Rightarrow> u8 list \<Rightarrow> conn \<Rightarrow> bool" where
  "conn_inv st ty c \<longleftrightarrow>
     c_from c \<le> length ty \<and> heard c @ up c = sent (c_log c) \<and>
     prefix (printed (c_log c) @ down c) (drop (c_from c) ty) \<and>
     (s_open c \<and> c_fd c \<in> tcp_members st \<longrightarrow> printed (c_log c) @ down c = drop (c_from c) ty) \<and>
     (pending c \<longrightarrow> \<not> s_open c \<and> printed (c_log c) @ down c = [])"

definition open_fds :: "conn list \<Rightarrow> int list" where
  "open_fds cs = map c_fd (filter s_open cs)"

definition chat_inv :: "chat \<Rightarrow> bool" where
  "chat_inv S \<longleftrightarrow>
     tcp_inv (srv S) \<and> distinct (open_fds (conns S)) \<and> tcp_members (srv S) \<subseteq> set (open_fds (conns S)) \<and>
     (\<forall>c \<in> set (conns S). conn_inv (srv S) (typed S) c)"

lemma open_fds_conn_turn:
  "open_fds (map (conn_turn rd st es) cs) = filter (\<lambda>fd. fd \<notin> closed_in es) (open_fds cs)"
  by (induction cs) (auto simp: open_fds_def conn_turn_def closed_in_def)

lemma open_fds_append [simp]: "open_fds (cs @ cs') = open_fds cs @ open_fds cs'"
  by (simp add: open_fds_def)

lemma prefix_drop_append: "n \<le> length ty \<Longrightarrow> prefix xs (drop n ty) \<Longrightarrow> prefix xs (drop n (ty @ ys))"
  by (simp add: prefix_append)

lemma net_ok_tcp_ok:
  assumes "chat_inv S" and "net_ok rd k S"
  shows "tcp_ok rd (srv S)"
proof -
  have inv: "tcp_inv (srv S)" and mem: "tcp_members (srv S) \<subseteq> set (open_fds (conns S))"
    using assms(1) by (simp_all add: chat_inv_def)
  have "pfd (pollt (srv S) ! i) \<in> set (open_fds (conns S))" if "tcp_live (srv S) i" for i
    using that mem by (auto simp: tcp_members_live [OF inv])
  moreover have "0 \<le> fd \<and> fd \<notin> set (open_fds (conns S))" if "accepted rd = Some (fd, ip)" for fd ip
    using assms(2) that by (auto simp: net_ok_def open_fds_def list_all_iff)
  ultimately show ?thesis unfolding tcp_ok_live by metis
qed

text \<open>One connection over a turn of the server.\<close>

lemma conn_inv_turn:
  assumes turn: "\<forall>fd. written fd es = (if fd \<in> tcp_members st2 then ty' else [])"
    "tcp_members st' = tcp_members st2 - closed_in es"
    and inv: "conn_inv st ty c" and reads: "s_open c \<longrightarrow> prefix (turn_reads rd st (c_fd c)) (up c)"
    and all: "s_open c \<and> c_fd c \<in> tcp_members st2 \<longrightarrow> printed (c_log c) @ down c = drop (c_from c) ty"
  shows "conn_inv st' (ty @ ty') (conn_turn rd st es c)"
proof (cases "s_open c")
  case False
  with inv show ?thesis by (auto simp: conn_inv_def conn_turn_def prefix_drop_append)
next
  case True
  with reads obtain r where r: "up c = turn_reads rd st (c_fd c) @ r" by (auto simp: prefix_def)
  show ?thesis
  proof (cases "c_fd c \<in> tcp_members st2")
    case member: True
    then have "written (c_fd c) es = ty'" using turn(1) by simp
    moreover have "printed (c_log c) @ down c = drop (c_from c) ty" using True member all by simp
    ultimately have "printed (c_log c) @ down c @ written (c_fd c) es = drop (c_from c) (ty @ ty')"
      using inv by (simp add: conn_inv_def flip: append_assoc)
    with True inv r show ?thesis by (simp add: conn_inv_def conn_turn_def)
  next
    case False
    with True inv r turn show ?thesis
      by (auto simp: conn_inv_def conn_turn_def intro: prefix_drop_append)
  qed
qed

lemma admit_cases:
  "c \<in> set (admit k fds n cs) \<Longrightarrow> k < length cs \<or> fds = [] \<Longrightarrow>
     c \<in> set cs \<or> (\<exists>fd fds'. fds = fd # fds' \<and> c = (cs ! k)\<lparr>pending := False, c_fd := fd, s_open := True, c_from := n\<rparr>)"
  by (auto simp: admit_def split: list.splits dest!: set_update_subset_insert [THEN subsetD])

lemma open_fds_update:
  assumes "k < length cs" and "\<not> s_open (cs ! k)" and "s_open c"
  shows "distinct (open_fds (cs[k := c])) \<longleftrightarrow> c_fd c \<notin> set (open_fds cs) \<and> distinct (open_fds cs)"
    and "set (open_fds (cs[k := c])) = insert (c_fd c) (set (open_fds cs))"
proof -
  let ?pre = "take k cs" and ?post = "drop (Suc k) cs"
  have "open_fds (?pre @ cs ! k # ?post) = open_fds ?pre @ open_fds ?post"
    using assms(2) by (simp add: open_fds_def)
  then have old: "open_fds cs = open_fds ?pre @ open_fds ?post" using id_take_nth_drop [OF assms(1)] by simp
  have new: "open_fds (cs[k := c]) = open_fds ?pre @ c_fd c # open_fds ?post"
    using assms(1,3) by (simp add: upd_conv_take_nth_drop open_fds_def)
  show "distinct (open_fds (cs[k := c])) \<longleftrightarrow> c_fd c \<notin> set (open_fds cs) \<and> distinct (open_fds cs)"
    "set (open_fds (cs[k := c])) = insert (c_fd c) (set (open_fds cs))"
    unfolding old new by auto
qed

text \<open>The open connections after the accept branch.\<close>

lemma admit_open:
  assumes "chat_inv S" and "net_ok rd k S"
  defines "cs \<equiv> admit k (turn_connects rd (srv S)) (length (typed S)) (conns S)"
  shows "distinct (open_fds cs)" and "set (open_fds cs) = set (turn_connects rd (srv S)) \<union> set (open_fds (conns S))"
proof -
  have dist: "distinct (open_fds (conns S))" using assms(1) by (simp add: chat_inv_def)
  have "distinct (open_fds cs) \<and> set (open_fds cs) = set (turn_connects rd (srv S)) \<union> set (open_fds (conns S))"
  proof (cases "turn_connects rd (srv S)")
    case Nil
    with dist show ?thesis by (simp add: cs_def admit_def)
  next
    case (Cons fd r)
    then obtain ip where acc: "accepted rd = Some (fd, ip)" and r: "r = []"
      by (auto simp: turn_connects_def Let_def split: if_splits option.splits)
    have k: "k < length (conns S)" "pending (conns S ! k)" using assms(2) Cons by (simp_all add: net_ok_def)
    then have "\<not> s_open (conns S ! k)" using assms(1) by (auto simp: chat_inv_def conn_inv_def)
    note upd = open_fds_update [OF k(1) this,
        of "(conns S ! k)\<lparr>pending := False, c_fd := fd, s_open := True, c_from := length (typed S)\<rparr>"]
    have "fd \<notin> set (open_fds (conns S))" using assms(2) acc by (auto simp: net_ok_def open_fds_def list_all_iff)
    with upd dist show ?thesis by (simp add: cs_def admit_def Cons r)
  qed
  then show "distinct (open_fds cs)" "set (open_fds cs) = set (turn_connects rd (srv S)) \<union> set (open_fds (conns S))"
    by simp_all
qed

text \<open>
  After the accept branch, which may have made \<open>fd\<close> a member: every connection of a member, the new one
  included, has been sent all that was typed since it was accepted.
\<close>

lemma admit_conn_inv:
  assumes inv: "chat_inv S" and net: "net_ok rd k S"
    and joined: "M = tcp_members (srv S) \<or> (\<exists>fd. turn_connects rd (srv S) = [fd] \<and> M = insert fd (tcp_members (srv S)))"
    and c: "c \<in> set (admit k (turn_connects rd (srv S)) (length (typed S)) (conns S))"
  shows "conn_inv (srv S) (typed S) c \<and>
    (s_open c \<and> c_fd c \<in> M \<longrightarrow> printed (c_log c) @ down c = drop (c_from c) (typed S))"
proof -
  let ?fds = "turn_connects rd (srv S)"
  have k: "k < length (conns S) \<or> ?fds = []" using net by (auto simp: net_ok_def)
  have old: "conn_inv (srv S) (typed S) c" if "c \<in> set (conns S)" for c using inv that by (simp add: chat_inv_def)
  show ?thesis
  proof (cases "c \<in> set (conns S)")
    case True
    have "fd \<noteq> c_fd c" if "?fds = [fd]" "s_open c" for fd
      using net that True
      by (auto simp: net_ok_def list_all_iff turn_connects_def Let_def split: if_splits option.splits)
    then have "c_fd c \<in> tcp_members (srv S)" if "s_open c" "c_fd c \<in> M" using that joined by auto
    with old [OF True] show ?thesis by (simp add: conn_inv_def)
  next
    case False
    then obtain fd fds' where new: "?fds = fd # fds'"
      "c = (conns S ! k)\<lparr>pending := False, c_fd := fd, s_open := True, c_from := length (typed S)\<rparr>"
      using admit_cases [OF c k] by blast
    then have "conn_inv (srv S) (typed S) (conns S ! k)" "pending (conns S ! k)"
      using net old [of "conns S ! k"] by (simp_all add: net_ok_def)
    then show ?thesis by (simp add: new(2) conn_inv_def)
  qed
qed

lemma chat_inv_server:
  assumes inv: "chat_inv S" and net: "net_ok rd k S" and run: "tcp_turn socket_fd rd (srv S) = Goes st'"
  shows "chat_inv (server_step rd k st' S)"
proof -
  let ?st = "srv S" and ?es = "new_events (srv S) st'"
  define cs where "cs = admit k (turn_connects rd (srv S)) (length (typed S)) (conns S)"
  have tinv: "tcp_inv ?st" using inv by (simp add: chat_inv_def)
  have ok: "tcp_ok rd ?st" by (rule net_ok_tcp_ok [OF inv net])
  obtain st2 go where acc: "turn_accept rd ?st = (st2, go)" by (cases "turn_accept rd ?st")
  note turn = tcp_turn_net [OF tinv ok acc run] and joined = turn_accept_net(2) [OF tinv ok acc]
  note opened = admit_open [OF inv net, folded cs_def]
  have "tcp_members ?st \<subseteq> set (open_fds (conns S))" using inv by (simp add: chat_inv_def)
  then have "tcp_members st2 \<subseteq> set (open_fds cs)" using joined opened(2) by auto
  then have sub: "tcp_members st' \<subseteq> set (open_fds (map (conn_turn rd ?st ?es) cs))"
    using turn by (auto simp: open_fds_conn_turn)
  have "conn_inv st' (typed S @ turn_typed rd ?st) (conn_turn rd ?st ?es c)" if c: "c \<in> set cs" for c
  proof (rule conn_inv_turn [OF turn [THEN conjunct1] turn [THEN conjunct2]])
    show "s_open c \<longrightarrow> prefix (turn_reads rd ?st (c_fd c)) (up c)"
      using net c by (simp add: net_ok_def cs_def list_all_iff)
  qed (use admit_conn_inv [OF inv net joined c [unfolded cs_def]] in blast)+
  then show ?thesis
    using opened(1) sub tcp_turn_inv [OF tinv ok disjI1 [OF run]]
    by (auto simp: chat_inv_def server_step_def cs_def [symmetric] open_fds_conn_turn)
qed

text \<open>A turn of a client: what it prints is what it takes from the connection.\<close>

lemma printed_append [simp]: "printed (es @ es') = printed es @ printed es'"
  by (induction es rule: printed.induct) auto

lemma sent_append [simp]: "sent (es @ es') = sent es @ sent es'"
  by (induction es rule: sent.induct) auto

lemma readaw_turn_shape:
  "\<exists>es go. readaw_turn rd lg = (if go then Goes (lg @ es) else Ends (lg @ es)) \<and>
     printed es = (if 0 < r_poll rd \<and> r_sock_ready rd then (case r_sock_read rd of ReadData buf \<Rightarrow> buf | _ \<Rightarrow> []) else [])"
proof (cases "closing rd")
  case False
  then have "readaw_turn rd lg = Goes (lg @ relayed rd)" by (rule readaw_turn_goes)
  then show ?thesis
    by (intro exI [of _ "relayed rd"] exI [of _ True]) (auto simp: relayed_def split: read_result.splits)
next
  case True
  then show ?thesis
    by (intro exI [of _ False] exI [of _ "(if 0 < r_poll rd \<and> r_sock_ready rd
        then (case r_sock_read rd of ReadData buf \<Rightarrow> [ToStdout buf] | _ \<Rightarrow> []) else []) @ [RelayIo (Err ''error'')]"])
      (auto simp: readaw_turn_def closing_def Let_def split: read_result.splits)
qed

lemma conn_relay_eq:
  assumes "client_ok rd c"
  shows "\<exists>es d go. down c = printed es @ d \<and>
    conn_relay rd c = c\<lparr>c_log := c_log c @ es, c_open := go, down := d, up := up c @ sent es\<rparr>"
proof -
  obtain es go where es: "readaw_turn rd (c_log c) = (if go then Goes (c_log c @ es) else Ends (c_log c @ es))"
    "printed es = (if 0 < r_poll rd \<and> r_sock_ready rd then (case r_sock_read rd of ReadData buf \<Rightarrow> buf | _ \<Rightarrow> []) else [])"
    using readaw_turn_shape by blast
  then have "prefix (printed es) (down c)" using assms by (auto simp: client_ok_def split: read_result.splits)
  then obtain d where d: "down c = printed es @ d" by (auto simp: prefix_def)
  have "conn_relay rd c = c\<lparr>c_log := c_log c @ es, c_open := go, down := d, up := up c @ sent es\<rparr>"
    by (simp add: conn_relay_def es(1) d)
  with d show ?thesis by blast
qed

lemma chat_inv_client:
  assumes inv: "chat_inv S" and k: "k < length (conns S)" and ok: "client_ok rd (conns S ! k)"
  shows "chat_inv (S\<lparr>conns := (conns S)[k := conn_relay rd (conns S ! k)]\<rparr>)"
proof -
  let ?c = "conns S ! k"
  obtain es d go where t: "down ?c = printed es @ d"
    "conn_relay rd ?c = ?c\<lparr>c_log := c_log ?c @ es, c_open := go, down := d, up := up ?c @ sent es\<rparr>"
    using conn_relay_eq [OF ok] by blast
  have c: "conn_inv (srv S) (typed S) ?c" using inv k by (simp add: chat_inv_def)
  have "conn_inv (srv S) (typed S) (conn_relay rd ?c)"
    using c unfolding conn_inv_def t by (simp flip: append_assoc)
  moreover have "open_fds ((conns S)[k := conn_relay rd ?c]) = open_fds (conns S)"
  proof -
    have "map (\<lambda>c. (s_open c, c_fd c)) ((conns S)[k := conn_relay rd ?c]) = map (\<lambda>c. (s_open c, c_fd c)) (conns S)"
      using k by (simp add: map_update t list_update_same_conv)
    moreover have "open_fds cs = map snd (filter fst (map (\<lambda>c. (s_open c, c_fd c)) cs))" for cs
      by (simp add: open_fds_def filter_map comp_def)
    ultimately show ?thesis by simp
  qed
  ultimately show ?thesis
    using inv by (auto simp: chat_inv_def dest!: set_update_subset_insert [THEN subsetD])
qed

lemma chat_inv_step: "chat_step socket_fd S S' \<Longrightarrow> chat_inv S \<Longrightarrow> chat_inv S'"
proof (induction rule: chat_step.induct)
  case (connects S)
  then show ?case by (auto simp: chat_inv_def fresh_conn_def conn_inv_def open_fds_def)
qed (simp_all add: chat_inv_server chat_inv_client)

lemma chat_inv_init: "chat_inv (chat_init socket_fd garbage)"
  by (simp add: chat_inv_def chat_init_def tcp_inv_init open_fds_def)
    (simp add: tcp_members_def receivers_def tcp_init_def)

subsection \<open>Running the chat\<close>

text \<open>A schedule, executed; the steps that are not possible are refused.\<close>

datatype chat_act = Connect | ServerTurn tcp_round nat | ClientTurn relay_round nat

fun chat_do :: "int \<Rightarrow> chat_act \<Rightarrow> chat \<Rightarrow> chat option" where
  "chat_do socket_fd Connect S = Some (S\<lparr>conns := conns S @ [fresh_conn]\<rparr>)"
| "chat_do socket_fd (ServerTurn rd k) S =
     (case tcp_turn socket_fd rd (srv S) of
        Goes st' \<Rightarrow> if net_ok rd k S then Some (server_step rd k st' S) else None
      | _ \<Rightarrow> None)"
| "chat_do socket_fd (ClientTurn rd k) S =
     (if k < length (conns S) \<and> client_ok rd (conns S ! k)
      then Some (S\<lparr>conns := (conns S)[k := conn_relay rd (conns S ! k)]\<rparr>) else None)"

abbreviation chat_schedule :: "int \<Rightarrow> chat_act list \<Rightarrow> chat \<Rightarrow> chat option" where
  "chat_schedule socket_fd \<equiv> run_schedule (chat_do socket_fd)"

lemma chat_do_step: "chat_do socket_fd a S = Some S' \<Longrightarrow> chat_step socket_fd S S'"
  by (cases a) (auto split: turn.splits if_splits intro: chat_step.intros)

lemma chat_step_do: "chat_step socket_fd S S' \<Longrightarrow> \<exists>a. chat_do socket_fd a S = Some S'"
proof (induction rule: chat_step.induct)
  case (connects S)
  show ?case by (intro exI [of _ Connect]) simp
next
  case (server rd S st' k)
  then show ?case by (intro exI [of _ "ServerTurn rd k"]) simp
next
  case (client k S rd)
  then show ?case by (intro exI [of _ "ClientTurn rd k"]) simp
qed

interpretation chat_runs: scheduled "chat_step socket_fd" "chat_do socket_fd" chat_inv for socket_fd
  by unfold_locales (simp_all add: chat_do_step chat_step_do chat_inv_step)

subsection \<open>Properties\<close>

text \<open>
  (C3) The chat delivers, over every interleaving of connections, turns of the server and turns of the
  clients: what a client has printed is the beginning of what the operator typed since its connection
  was accepted, without loss, duplication or bytes of another connection, also when its descriptor
  number was used by someone before; as long as it is in the server's table the rest is under way to it.
  What the server has read from a client is the beginning of what the client sent.
\<close>

theorem chat_delivers:
  assumes "chat_reaches socket_fd (chat_init socket_fd garbage) S" and "c \<in> set (conns S)"
  shows "prefix (printed (c_log c)) (drop (c_from c) (typed S)) \<and>
    (s_open c \<and> c_fd c \<in> tcp_members (srv S) \<longrightarrow> printed (c_log c) @ down c = drop (c_from c) (typed S)) \<and>
    heard c @ up c = sent (c_log c)"
proof -
  have "chat_inv S" using chat_runs.reaches_inv [OF assms(1) chat_inv_init] .
  then have "conn_inv (srv S) (typed S) c" using assms(2) by (simp add: chat_inv_def)
  then show ?thesis by (auto simp: conn_inv_def dest: append_prefixD)
qed

text \<open>Two clients connect, the first leaves, a third gets its descriptor; then the operator types.\<close>

definition chat_round :: "(int \<times> string) option \<Rightarrow> (nat \<Rightarrow> bool) \<Rightarrow> tcp_round" where
  "chat_round acc rdy =
     \<lparr>poll_ret = 1, ready = rdy, accepted = acc, stdin_read = ReadData [104, 105], client_read = \<lambda>_. ReadEof\<rparr>"

definition chat_relay :: "u8 list \<Rightarrow> relay_round" where
  "chat_relay buf =
     \<lparr>r_poll = 1, r_sock_ready = True, r_stdin_ready = False, r_sock_read = ReadData buf, r_stdin_read = ReadEof\<rparr>"

definition demo_chat :: "chat_act list" where
  "demo_chat =
     [Connect, ServerTurn (chat_round (Some (4, ''10.0.0.1'')) (\<lambda>i. i = 0)) 0,
      ServerTurn (chat_round None (\<lambda>i. i = 1)) 0,
      Connect, ServerTurn (chat_round (Some (5, ''10.0.0.2'')) (\<lambda>i. i = 0)) 1,
      ServerTurn (chat_round None (\<lambda>i. i = 2)) 0,
      Connect, ServerTurn (chat_round (Some (4, ''10.0.0.3'')) (\<lambda>i. i = 0)) 2,
      ServerTurn (chat_round None (\<lambda>i. i = 1)) 0,
      ClientTurn (chat_relay [104]) 2]"

theorem chat_delivers_witness:
  "\<exists>S. chat_schedule 3 demo_chat (chat_init 3 demo_garbage) = Some S \<and>
     typed S = [104, 105, 104, 105] \<and> c_fd (conns S ! 2) = c_fd (conns S ! 0) \<and>
     printed (c_log (conns S ! 2)) = [104] \<and> prefix [104] (drop (c_from (conns S ! 2)) (typed S)) \<and>
     printed (c_log (conns S ! 2)) @ down (conns S ! 2) = drop (c_from (conns S ! 2)) (typed S)"
proof -
  have "case chat_schedule 3 demo_chat (chat_init 3 demo_garbage) of None \<Rightarrow> False
    | Some S \<Rightarrow> typed S = [104, 105, 104, 105] \<and> length (conns S) = 3 \<and> c_fd (conns S ! 0) = 4 \<and>
        c_fd (conns S ! 2) = 4 \<and> printed (c_log (conns S ! 2)) = [104] \<and> s_open (conns S ! 2) \<and>
        4 \<in> set (receivers (srv S))"
    by code_simp
  then obtain S where S: "chat_schedule 3 demo_chat (chat_init 3 demo_garbage) = Some S"
    "typed S = [104, 105, 104, 105]" "length (conns S) = 3" "c_fd (conns S ! 0) = 4" "c_fd (conns S ! 2) = 4"
    "printed (c_log (conns S ! 2)) = [104]" "s_open (conns S ! 2)" "4 \<in> tcp_members (srv S)"
    by (auto simp: tcp_members_def split: option.splits)
  have "conns S ! 2 \<in> set (conns S)" using S(3) by simp
  from chat_delivers [OF chat_runs.schedule_reaches [OF S(1)] this] S show ?thesis by simp
qed

end
