(* ===== verification/Mtls_Server.thy ===== *)
theory Mtls_Server
  imports Poll_Table C_Bytes
begin

text \<open>
  The poll loop of \<^verbatim>\<open>src/projects/networking/mtls-chat/server.c\<close>: two parallel arrays, \<open>fds\<close> and \<open>ssls\<close>,
  and \<open>nfds\<close>.  OpenSSL is outside the repository: what its functions return in a turn is part of the
  turn's input.  Its objects are numbered in the order they are created and the freed ones are
  recorded, so that handing a NULL or freed object to the library is an outcome of its own.
\<close>

definition TLS_MAX_CLIENTS :: nat where "TLS_MAX_CLIENTS = 102"

datatype ssl_ptr = SslNull | SslObj nat

datatype ssl_error =
    SSL_ERROR_ZERO_RETURN | SSL_ERROR_SYSCALL | SSL_ERROR_SSL | SSL_ERROR_WANT_READ
  | SSL_ERROR_WANT_WRITE | SSL_ERROR_OTHER

datatype ssl_read_result = SslData "u8 list" | SslFail ssl_error

datatype mtls_event =
    MIo io
  | MWriteOut "u8 list"           \<comment> \<open>\<open>write(STDOUT_FILENO, \<dots>)\<close>\<close>
  | MClose int
  | MNonblock int                 \<comment> \<open>\<open>O_NONBLOCK\<close> set on the descriptor\<close>
  | MSslAccept nat int
  | MSslWrite nat "u8 list"
  | MSslShutdown nat
  | MSslFree nat
  | MErrQueue                     \<comment> \<open>\<open>ERR_print_errors_fp\<close>\<close>

record mtls_server =
  fds :: "pollfd list"
  ssls :: "ssl_ptr list"
  nfds :: int
  next_obj :: nat
  freed :: "nat list"
  log :: "mtls_event list"

record mtls_round =
  poll_ret :: int
  ready :: "nat \<Rightarrow> bool"
  accepted :: "(int \<times> string) option"
  ssl_new_ok :: bool
  ssl_set_fd_ok :: bool
  ssl_accept_ret :: int
  stdin_read :: read_result
  ssl_read :: "nat \<Rightarrow> ssl_read_result"

definition tell :: "mtls_event list \<Rightarrow> mtls_server \<Rightarrow> mtls_server" where
  "tell es st = st\<lparr>log := log st @ es\<rparr>"

definition mtls_init :: "int \<Rightarrow> pollfd list \<Rightarrow> mtls_server" where
  "mtls_init socket_fd garbage =
     \<lparr>fds =
        \<lparr>pfd = socket_fd, events = True, revents = False\<rparr> #
        \<lparr>pfd = 0, events = True, revents = False\<rparr> #
        map (\<lambda>i. (garbage ! i)\<lparr>pfd := - 1\<rparr>) [2..<TLS_MAX_CLIENTS],
      ssls = replicate TLS_MAX_CLIENTS SslNull, nfds = 2, next_obj = 0, freed = [], log = []\<rparr>"

subsection \<open>Accepting a client\<close>

text \<open>\<open>tcp_accept_function\<close>: the slot of the new client, or \<open>None\<close> when it returns 1.\<close>

definition tcp_accept_function :: "mtls_round \<Rightarrow> mtls_server \<Rightarrow> mtls_server \<times> nat option" where
  "tcp_accept_function rd st =
     (case accepted rd of
        None \<Rightarrow> (tell [MIo (Perror ''accept'')] st, None)
      | Some (client_fd, client_addr) \<Rightarrow>
          (case first_free (fds st) [2..<TLS_MAX_CLIENTS] of
             Some i \<Rightarrow>
               (tell [MNonblock client_fd]
                  (st\<lparr>fds := (fds st)[i := \<lparr>pfd = client_fd, events = True, revents = False\<rparr>],
                      nfds := (if nfds st \<le> int i then int i + 1 else nfds st)\<rparr>), Some i)
           | None \<Rightarrow>
               (tell [MIo (Err (''[max clients reached]'' @ [NL])), MClose client_fd] st, None)))"

text \<open>\<open>SSL_free\<close> of the object in a slot; the pointer in \<open>ssls\<close> is left as it is.\<close>

definition ssl_free :: "nat \<Rightarrow> mtls_server \<Rightarrow> mtls_server" where
  "ssl_free obj st = tell [MSslFree obj] (st\<lparr>freed := obj # freed st\<rparr>)"

text \<open>\<open>tls_accept_function\<close>: whether it returns 0.\<close>

definition tls_accept_function :: "mtls_round \<Rightarrow> nat \<Rightarrow> mtls_server \<Rightarrow> mtls_server \<times> bool" where
  "tls_accept_function rd i st =
     (if \<not> ssl_new_ok rd then (st\<lparr>ssls := (ssls st)[i := SslNull]\<rparr>, False)
      else
        (let obj = next_obj st;
             st1 = st\<lparr>ssls := (ssls st)[i := SslObj obj], next_obj := obj + 1\<rparr>
         in if \<not> ssl_set_fd_ok rd then (ssl_free obj st1, False)
            else
              (let st2 = tell [MSslAccept obj (pfd (fds st1 ! i))] st1 in
               if ssl_accept_ret rd \<le> 0 then
                 (ssl_free obj (if ssl_accept_ret rd < 0 then tell [MSslShutdown obj] st2 else st2), False)
               else (st2, True))))"

text \<open>The accept branch of the loop; the flag is false for \<open>continue\<close>.\<close>

definition mtls_accept :: "mtls_round \<Rightarrow> mtls_server \<Rightarrow> mtls_server \<times> bool" where
  "mtls_accept rd st =
     (case tcp_accept_function rd st of
        (st1, None) \<Rightarrow> (st1, False)
      | (st1, Some i) \<Rightarrow>
          (case tls_accept_function rd i st1 of
             (st2, False) \<Rightarrow>
               (tell [MClose (pfd (fds st2 ! i))]
                  (st2\<lparr>fds := (fds st2)[i := (fds st2 ! i)\<lparr>pfd := - 1\<rparr>], nfds := nfds st2 - 1\<rparr>), False)
           | (st2, True) \<Rightarrow>
               (tell [MIo (Out (''[client connected: '' @ snd (the (accepted rd)) @ '']'' @ [NL]))] st2, True)))"

subsection \<open>Broadcast and client input\<close>

text \<open>Handing the object of slot \<open>i\<close> to OpenSSL.\<close>

definition ssl_object :: "mtls_server \<Rightarrow> nat \<Rightarrow> nat cres" where
  "ssl_object st i =
     (case ssls st ! i of
        SslNull \<Rightarrow> Inl NullPointer
      | SslObj obj \<Rightarrow> if obj \<in> set (freed st) then Inl UseAfterFree else Inr obj)"

fun broadcast :: "u8 list \<Rightarrow> nat list \<Rightarrow> mtls_server \<Rightarrow> mtls_server cres" where
  "broadcast buf [] st = Inr st"
| "broadcast buf (i # is) st =
     (if pfd (fds st ! i) \<noteq> - 1 then
        (case ssl_object st i of
           Inl u \<Rightarrow> Inl u
         | Inr obj \<Rightarrow> broadcast buf is (tell [MSslWrite obj buf] st))
      else broadcast buf is st)"

text \<open>The code after the labels \<open>error\<close>: free, forget, close, shrink.\<close>

definition monitor_error :: "nat \<Rightarrow> nat \<Rightarrow> mtls_server \<Rightarrow> mtls_server" where
  "monitor_error obj i st =
     (let st1 = ssl_free obj st
      in tell [MClose (pfd (fds st1 ! i))]
           (st1\<lparr>ssls := (ssls st1)[i := SslNull], fds := (fds st1)[i := (fds st1 ! i)\<lparr>pfd := - 1\<rparr>],
                nfds := nfds st1 - 1\<rparr>))"

definition monitor_cleanup :: "nat \<Rightarrow> nat \<Rightarrow> mtls_server \<Rightarrow> mtls_server" where
  "monitor_cleanup obj i st = monitor_error obj i (tell [MSslShutdown obj] st)"

definition monitor :: "mtls_round \<Rightarrow> nat \<Rightarrow> mtls_server \<Rightarrow> mtls_server cres" where
  "monitor rd i st =
     (case ssl_object st i of
        Inl u \<Rightarrow> Inl u
      | Inr obj \<Rightarrow>
          (case ssl_read rd i of
             SslData buf \<Rightarrow> Inr (tell [MWriteOut buf] st)
           | SslFail SSL_ERROR_ZERO_RETURN \<Rightarrow>
               Inr (monitor_cleanup obj i (tell [MIo (Out (''[client disconnected]'' @ [NL]))] st))
           | SslFail SSL_ERROR_SYSCALL \<Rightarrow>
               Inr (monitor_error obj i (tell [MIo (Out (''[client disconnected]'' @ [NL]))] st))
           | SslFail SSL_ERROR_SSL \<Rightarrow>
               Inr (monitor_error obj i (tell [MIo (Out (''[client disconnected]'' @ [NL]))] st))
           | SslFail SSL_ERROR_WANT_READ \<Rightarrow> Inr st
           | SslFail SSL_ERROR_WANT_WRITE \<Rightarrow> Inr st
           | SslFail SSL_ERROR_OTHER \<Rightarrow> Inr (monitor_cleanup obj i (tell [MErrQueue] st))))"

text \<open>
  The client loop: its bound \<open>nfds\<close> is read again before every iteration and \<open>monitor\<close> may have
  lowered it.
\<close>

fun monitor_clients :: "mtls_round \<Rightarrow> nat list \<Rightarrow> mtls_server \<Rightarrow> mtls_server cres" where
  "monitor_clients rd [] st = Inr st"
| "monitor_clients rd (i # is) st =
     (if int i < nfds st then
        (if pfd (fds st ! i) \<noteq> - 1 \<and> revents (fds st ! i) then
           (case monitor rd i st of Inl u \<Rightarrow> Inl u | Inr st' \<Rightarrow> monitor_clients rd is st')
         else monitor_clients rd is st)
      else Inr st)"

text \<open>\<open>read_server\<close>: the bytes of one \<open>read\<close>, or \<open>None\<close> when it returns 1.\<close>

definition read_server :: "read_result \<Rightarrow> u8 list option" where
  "read_server r = (case r of ReadData buf \<Rightarrow> Some buf | _ \<Rightarrow> None)"

text \<open>The standard input branch: a failed \<open>read_server\<close> is a \<open>continue\<close>, otherwise the broadcast.\<close>

definition mtls_stdin :: "mtls_round \<Rightarrow> mtls_server \<Rightarrow> (mtls_server \<times> bool) cres" where
  "mtls_stdin rd st =
     (case read_server (stdin_read rd) of
        Some buf \<Rightarrow>
          (case broadcast buf [2..<nat (nfds st)] st of Inl u \<Rightarrow> Inl u | Inr st' \<Rightarrow> Inr (st', True))
      | None \<Rightarrow> Inr (st, False))"

definition mtls_turn :: "mtls_round \<Rightarrow> mtls_server \<Rightarrow> mtls_server turn" where
  "mtls_turn rd st =
     (let r = poll_ret rd;
          st1 = st\<lparr>fds := do_poll r (ready rd) (nfds st) (fds st)\<rparr>;
          (st2, go2) = (if 0 < r \<and> revents (fds st1 ! 0) then mtls_accept rd st1 else (st1, True))
      in if \<not> go2 then Goes st2
         else
           (case (if 0 < r \<and> revents (fds st2 ! 1) then mtls_stdin rd st2 else Inr (st2, True)) of
              Inl u \<Rightarrow> Crashes u
            | Inr (st3, go3) \<Rightarrow>
                if \<not> go3 then Goes st3
                else if 0 < r then
                  (case monitor_clients rd [2..<TLS_MAX_CLIENTS] st3 of Inl u \<Rightarrow> Crashes u | Inr st4 \<Rightarrow> Goes st4)
                else Goes st3))"

subsection \<open>The invariant\<close>

definition mtls_live :: "mtls_server \<Rightarrow> nat \<Rightarrow> bool" where
  "mtls_live st i \<longleftrightarrow> 2 \<le> i \<and> i < TLS_MAX_CLIENTS \<and> pfd (fds st ! i) \<noteq> - 1"

text \<open>Every client slot in use holds an OpenSSL object of its own that has not been freed.\<close>

definition mtls_inv :: "mtls_server \<Rightarrow> bool" where
  "mtls_inv st \<longleftrightarrow>
     length (fds st) = TLS_MAX_CLIENTS \<and> length (ssls st) = TLS_MAX_CLIENTS \<and>
     2 \<le> nfds st \<and> nfds st \<le> int TLS_MAX_CLIENTS \<and>
     distinct (freed st) \<and> (\<forall>obj \<in> set (freed st). obj < next_obj st) \<and>
     (\<forall>i. mtls_live st i \<longrightarrow> (\<exists>obj. ssls st ! i = SslObj obj \<and> obj < next_obj st \<and> obj \<notin> set (freed st))) \<and>
     (\<forall>i j. mtls_live st i \<and> mtls_live st j \<and> ssls st ! i = ssls st ! j \<longrightarrow> i = j)"

lemma tell_sel [simp]:
  "fds (tell es st) = fds st" "ssls (tell es st) = ssls st" "nfds (tell es st) = nfds st"
  "next_obj (tell es st) = next_obj st" "freed (tell es st) = freed st" "log (tell es st) = log st @ es"
  by (simp_all add: tell_def)

lemma mtls_live_tell [simp]: "mtls_live (tell es st) = mtls_live st"
  and mtls_inv_tell [simp]: "mtls_inv (tell es st) = mtls_inv st"
  and ssl_object_tell [simp]: "ssl_object (tell es st) i = ssl_object st i"
  by (simp_all add: mtls_live_def mtls_inv_def ssl_object_def fun_eq_iff split: ssl_ptr.splits)

lemma mtls_inv_init [wf_intros]: "mtls_inv (mtls_init socket_fd garbage)"
  by (auto simp: mtls_inv_def mtls_init_def mtls_live_def TLS_MAX_CLIENTS_def nth_Cons' simp del: upt_Suc)

lemma mtls_inv_poll:
  "mtls_inv st \<Longrightarrow> mtls_inv (st\<lparr>fds := do_poll r rdy (nfds st) (fds st)\<rparr>)"
proof -
  assume inv: "mtls_inv st"
  then have "mtls_live (st\<lparr>fds := do_poll r rdy (nfds st) (fds st)\<rparr>) = mtls_live st"
    by (auto simp: mtls_live_def mtls_inv_def fun_eq_iff)
  with inv show ?thesis by (simp add: mtls_inv_def)
qed

lemma ssl_object_live: "mtls_inv st \<Longrightarrow> mtls_live st i \<Longrightarrow> \<exists>obj. ssl_object st i = Inr obj \<and> ssls st ! i = SslObj obj"
  by (fastforce simp: mtls_inv_def ssl_object_def)

text \<open>Slot \<open>i\<close> is emptied, whatever is left in \<open>ssls\<close> and whatever objects were created for it.\<close>

lemma mtls_inv_release:
  assumes inv: "mtls_inv st" and i: "2 \<le> i" "i < TLS_MAX_CLIENTS"
    and f: "fds st' = (fds st)[i := p]" "pfd p = - 1" and s: "ssls st' = (ssls st)[i := q]"
    and n: "next_obj st \<le> next_obj st'" and d: "distinct (freed st')"
    and fr: "\<And>obj. obj \<in> set (freed st') \<Longrightarrow>
        obj < next_obj st' \<and> (\<forall>j. mtls_live st j \<longrightarrow> j \<noteq> i \<longrightarrow> ssls st ! j \<noteq> SslObj obj)"
    and nf: "2 \<le> nfds st'" "nfds st' \<le> int TLS_MAX_CLIENTS"
  shows "mtls_inv st'"
proof -
  have len: "i < length (fds st)" "i < length (ssls st)" using inv i by (simp_all add: mtls_inv_def)
  have live: "mtls_live st' j \<longleftrightarrow> j \<noteq> i \<and> mtls_live st j" for j
    using len(1) f by (auto simp: mtls_live_def nth_list_update)
  have ssl: "ssls st' ! j = ssls st ! j" if "j \<noteq> i" for j using that s by simp
  have "\<exists>obj. ssls st' ! j = SslObj obj \<and> obj < next_obj st' \<and> obj \<notin> set (freed st')" if "mtls_live st' j" for j
  proof -
    from that have j: "j \<noteq> i" "mtls_live st j" unfolding live by auto
    with inv obtain obj where "ssls st ! j = SslObj obj" "obj < next_obj st" by (auto simp: mtls_inv_def)
    with fr j n show ?thesis unfolding ssl [OF j(1)] by fastforce
  qed
  moreover have "j = k" if "mtls_live st' j" "mtls_live st' k" "ssls st' ! j = ssls st' ! k" for j k
    using that inv unfolding live by (simp add: ssl mtls_inv_def)
  ultimately show ?thesis
    using inv f s nf fr d unfolding mtls_inv_def [of st'] by (auto simp: mtls_inv_def [of st])
qed

text \<open>A new client in the free slot \<open>i\<close>, with a new object.\<close>

lemma mtls_inv_connect:
  assumes inv: "mtls_inv st" and i: "2 \<le> i" "i < TLS_MAX_CLIENTS" "pfd (fds st ! i) = - 1"
    and f: "fds st' = (fds st)[i := p]" and s: "ssls st' = (ssls st)[i := SslObj (next_obj st)]"
    and n: "next_obj st' = next_obj st + 1" "freed st' = freed st"
    and nf: "2 \<le> nfds st'" "nfds st' \<le> int TLS_MAX_CLIENTS"
  shows "mtls_inv st'"
proof -
  have len: "i < length (fds st)" "i < length (ssls st)" using inv i by (simp_all add: mtls_inv_def)
  have live: "mtls_live st' j \<longleftrightarrow> (if j = i then pfd p \<noteq> - 1 else mtls_live st j)" for j
    using len(1) f i by (auto simp: mtls_live_def nth_list_update)
  have ssl: "ssls st' ! j = (if j = i then SslObj (next_obj st) else ssls st ! j)" for j
    using s len(2) by simp
  have old: "\<exists>obj. ssls st ! j = SslObj obj \<and> obj < next_obj st \<and> obj \<notin> set (freed st)" if "mtls_live st j" for j
    using that inv by (simp add: mtls_inv_def)
  have ne: "SslObj (next_obj st) \<noteq> ssls st ! j" "ssls st ! j \<noteq> SslObj (next_obj st)" if "mtls_live st j" for j
    using old [OF that] by auto
  have fresh: "next_obj st \<notin> set (freed st)" using inv by (auto simp: mtls_inv_def)
  have "\<exists>obj. ssls st' ! j = SslObj obj \<and> obj < next_obj st' \<and> obj \<notin> set (freed st')" if "mtls_live st' j" for j
    using that old fresh unfolding ssl live n by (cases "j = i") (auto intro: less_SucI)
  moreover have "j = k" if "mtls_live st' j" "mtls_live st' k" "ssls st' ! j = ssls st' ! k" for j k
    using that inv ne unfolding live ssl by (auto simp: mtls_inv_def split: if_splits)
  ultimately show ?thesis
    using inv f s n nf unfolding mtls_inv_def [of st'] by (auto simp: mtls_inv_def [of st])
qed

lemma tcp_accept_Some:
  assumes "tcp_accept_function rd st = (st1, Some i)"
  shows "\<exists>fd ip. accepted rd = Some (fd, ip) \<and> 2 \<le> i \<and> i < TLS_MAX_CLIENTS \<and> pfd (fds st ! i) = - 1 \<and>
    fds st1 = (fds st)[i := \<lparr>pfd = fd, events = True, revents = False\<rparr>] \<and>
    nfds st1 = max (nfds st) (int i + 1) \<and> ssls st1 = ssls st \<and> next_obj st1 = next_obj st \<and>
    freed st1 = freed st"
  using assms
  by (auto simp: tcp_accept_function_def split: option.splits dest!: first_free_Some)

lemma tcp_accept_None: "tcp_accept_function rd st = (st1, None) \<Longrightarrow> \<exists>es. st1 = tell es st"
  by (auto simp: tcp_accept_function_def split: option.splits)

lemma tls_accept_True:
  "tls_accept_function rd i st = (st2, True) \<Longrightarrow>
     \<exists>es. st2 = tell es (st\<lparr>ssls := (ssls st)[i := SslObj (next_obj st)], next_obj := next_obj st + 1\<rparr>)"
  by (auto simp: tls_accept_function_def Let_def split: if_splits)

lemma tls_accept_False:
  "tls_accept_function rd i st = (st2, False) \<Longrightarrow>
     fds st2 = fds st \<and> nfds st2 = nfds st \<and> (\<exists>q. ssls st2 = (ssls st)[i := q]) \<and>
     (next_obj st2 = next_obj st \<and> freed st2 = freed st \<or>
      next_obj st2 = next_obj st + 1 \<and> freed st2 = next_obj st # freed st)"
  by (auto simp: tls_accept_function_def Let_def ssl_free_def split: if_splits)

text \<open>A handshake that failed leaves its slot released, whatever it did with the object.\<close>

lemma mtls_inv_failed:
  assumes inv: "mtls_inv st" and i: "2 \<le> i" "i < TLS_MAX_CLIENTS"
    and fds: "fds st2 = (fds st)[i := p]" and ssls: "ssls st2 = (ssls st)[i := q]"
    and nfds: "3 \<le> nfds st2" "nfds st2 \<le> int TLS_MAX_CLIENTS"
    and obj: "next_obj st2 = next_obj st \<and> freed st2 = freed st \<or>
         next_obj st2 = next_obj st + 1 \<and> freed st2 = next_obj st # freed st"
  shows "mtls_inv (st2\<lparr>fds := (fds st2)[i := (fds st2 ! i)\<lparr>pfd := - 1\<rparr>], nfds := nfds st2 - 1\<rparr>)"
proof -
  have live: "ssls st ! j \<noteq> SslObj obj" if "mtls_live st j" "obj \<in> set (freed st) \<or> obj = next_obj st" for j obj
    using that inv by (auto simp: mtls_inv_def)
  have fr: "obj < next_obj st2" if "obj \<in> set (freed st2)" for obj
  proof -
    have "\<forall>k \<in> set (freed st). k < next_obj st" using inv by (simp add: mtls_inv_def)
    with that obj show ?thesis by (metis Suc_eq_plus1 lessI less_SucI set_ConsD)
  qed
  have "distinct (freed st)" "next_obj st \<notin> set (freed st)" using inv by (auto simp: mtls_inv_def)
  then have di: "distinct (freed st2)" using obj by auto
  show ?thesis
    by (rule mtls_inv_release [OF inv i, of _ "(fds st2 ! i)\<lparr>pfd := - 1\<rparr>" q])
      (use fds ssls nfds obj live fr di in auto)
qed

lemma mtls_inv_accept:
  assumes inv: "mtls_inv st"
  shows "mtls_inv (fst (mtls_accept rd st))"
proof -
  obtain st1 oi where tcp: "tcp_accept_function rd st = (st1, oi)" by (cases "tcp_accept_function rd st")
  show ?thesis
  proof (cases oi)
    case None
    with tcp inv show ?thesis by (auto simp: mtls_accept_def dest!: tcp_accept_None)
  next
    case (Some i)
    with tcp obtain fd ip where t: "accepted rd = Some (fd, ip)" "2 \<le> i" "i < TLS_MAX_CLIENTS"
      "pfd (fds st ! i) = - 1" "fds st1 = (fds st)[i := \<lparr>pfd = fd, events = True, revents = False\<rparr>]"
      "nfds st1 = max (nfds st) (int i + 1)" "ssls st1 = ssls st" "next_obj st1 = next_obj st"
      "freed st1 = freed st"
      using tcp_accept_Some by blast
    have nf: "3 \<le> nfds st1" "nfds st1 \<le> int TLS_MAX_CLIENTS" using inv t by (auto simp: mtls_inv_def)
    obtain st2 ok where tls: "tls_accept_function rd i st1 = (st2, ok)" by (cases "tls_accept_function rd i st1")
    show ?thesis
    proof (cases ok)
      case True
      with tls obtain es where st2:
        "st2 = tell es (st1\<lparr>ssls := (ssls st1)[i := SslObj (next_obj st1)], next_obj := next_obj st1 + 1\<rparr>)"
        using tls_accept_True [of rd i st1 st2] by auto
      have "mtls_inv st2" by (rule mtls_inv_connect [OF inv t(2-4)]) (use t nf st2 in simp_all)
      with tcp Some tls True show ?thesis by (simp add: mtls_accept_def)
    next
      case False
      with tls have f: "fds st2 = fds st1" "nfds st2 = nfds st1" "\<exists>q. ssls st2 = (ssls st)[i := q]"
        "next_obj st2 = next_obj st \<and> freed st2 = freed st \<or>
         next_obj st2 = next_obj st + 1 \<and> freed st2 = next_obj st # freed st"
        using tls_accept_False [of rd i st1 st2] t by auto
      obtain q where q: "ssls st2 = (ssls st)[i := q]" using f(3) by blast
      have "mtls_inv (st2\<lparr>fds := (fds st2)[i := (fds st2 ! i)\<lparr>pfd := - 1\<rparr>], nfds := nfds st2 - 1\<rparr>)"
        by (rule mtls_inv_failed [OF inv t(2,3) _ q]) (use t(5) f nf in auto)
      with tcp Some tls False show ?thesis by (simp add: mtls_accept_def)
    qed
  qed
qed

lemma broadcast_ok:
  "mtls_inv st \<Longrightarrow> (\<And>i. i \<in> set is \<Longrightarrow> 2 \<le> i \<and> i < TLS_MAX_CLIENTS) \<Longrightarrow> \<exists>es. broadcast buf is st = Inr (tell es st)"
proof (induction "is" arbitrary: st)
  case Nil
  show ?case by (intro exI [of _ "[]"]) (simp add: tell_def)
next
  case (Cons i "is")
  show ?case
  proof (cases "pfd (fds st ! i) = - 1")
    case True
    with Cons show ?thesis by simp
  next
    case False
    with Cons.prems obtain obj where obj: "ssl_object st i = Inr obj"
      using ssl_object_live [of st i] by (auto simp: mtls_live_def)
    obtain es where "broadcast buf is (tell [MSslWrite obj buf] st) = Inr (tell es (tell [MSslWrite obj buf] st))"
      using Cons by (metis list.set_intros(2) mtls_inv_tell)
    moreover have "tell es (tell [MSslWrite obj buf] st) = tell (MSslWrite obj buf # es) st"
      by (simp add: tell_def)
    ultimately show ?thesis using False obj by auto
  qed
qed

text \<open>The state after slot \<open>i\<close> has been cleaned up.\<close>

lemma monitor_error_sel:
  "fds (monitor_error obj i st) = (fds st)[i := (fds st ! i)\<lparr>pfd := - 1\<rparr>]"
  "ssls (monitor_error obj i st) = (ssls st)[i := SslNull]"
  "nfds (monitor_error obj i st) = nfds st - 1"
  "next_obj (monitor_error obj i st) = next_obj st"
  "freed (monitor_error obj i st) = obj # freed st"
  by (simp_all add: monitor_error_def ssl_free_def Let_def)

lemma mtls_inv_monitor_error:
  assumes inv: "mtls_inv st" and live: "mtls_live st i" "int i < nfds st" and obj: "ssls st ! i = SslObj obj"
  shows "mtls_inv (monitor_error obj i st)"
proof (rule mtls_inv_release [OF inv, of i _ "(fds st ! i)\<lparr>pfd := - 1\<rparr>" SslNull])
  fix k assume k: "k \<in> set (freed (monitor_error obj i st))"
  have "obj < next_obj st" using inv live obj by (fastforce simp: mtls_inv_def)
  moreover have "ssls st ! j \<noteq> SslObj k" if "mtls_live st j" "j \<noteq> i" for j
    using that k inv live(1) obj unfolding mtls_inv_def monitor_error_sel by (metis set_ConsD ssl_ptr.inject)
  ultimately show "k < next_obj (monitor_error obj i st) \<and>
      (\<forall>j. mtls_live st j \<longrightarrow> j \<noteq> i \<longrightarrow> ssls st ! j \<noteq> SslObj k)"
    using k inv by (auto simp: monitor_error_sel mtls_inv_def)
next
  have "distinct (freed st)" "obj \<notin> set (freed st)" using inv live(1) obj by (fastforce simp: mtls_inv_def)+
  then show "distinct (freed (monitor_error obj i st))" by (simp add: monitor_error_sel)
qed (use inv live in \<open>auto simp: monitor_error_sel mtls_inv_def mtls_live_def\<close>)

lemma monitor_ok:
  assumes "mtls_inv st" and "mtls_live st i" and "int i < nfds st"
  shows "\<exists>st'. monitor rd i st = Inr st' \<and> mtls_inv st'"
proof -
  obtain obj where obj: "ssl_object st i = Inr obj" "ssls st ! i = SslObj obj"
    using ssl_object_live [OF assms(1,2)] by blast
  have "mtls_inv (monitor_error obj i (tell es st))" for es
    by (rule mtls_inv_monitor_error) (use assms obj in simp_all)
  then have "mtls_inv (monitor_error obj i (tell es st))"
    and "mtls_inv (monitor_error obj i (tell es (tell es' st)))" for es es'
    using assms obj by (auto intro: mtls_inv_monitor_error)
  then show ?thesis
    using assms obj
    by (auto simp: monitor_def monitor_cleanup_def split: ssl_read_result.splits ssl_error.splits)
qed

lemma monitor_clients_ok:
  "mtls_inv st \<Longrightarrow> (\<And>i. i \<in> set is \<Longrightarrow> 2 \<le> i \<and> i < TLS_MAX_CLIENTS) \<Longrightarrow>
     \<exists>st'. monitor_clients rd is st = Inr st' \<and> mtls_inv st'"
proof (induction "is" arbitrary: st)
  case (Cons i "is")
  show ?case
  proof (cases "int i < nfds st \<and> pfd (fds st ! i) \<noteq> - 1 \<and> revents (fds st ! i)")
    case True
    then have "mtls_live st i" using Cons.prems(2) [of i] by (simp add: mtls_live_def)
    with True Cons.prems(1) obtain s1 where "monitor rd i st = Inr s1" "mtls_inv s1"
      using monitor_ok by blast
    with Cons True show ?thesis by simp
  next
    case False
    with Cons show ?thesis by auto
  qed
qed simp

lemma mtls_stdin_ok:
  assumes "mtls_inv st"
  shows "\<exists>es go. mtls_stdin rd st = Inr (tell es st, go)"
proof (cases "stdin_read rd")
  case (ReadData buf)
  have "2 \<le> i \<and> i < TLS_MAX_CLIENTS" if "i \<in> set [2..<nat (nfds st)]" for i
    using that assms by (auto simp: mtls_inv_def)
  then obtain es where "broadcast buf [2..<nat (nfds st)] st = Inr (tell es st)"
    using broadcast_ok [OF assms, of "[2..<nat (nfds st)]" buf] by blast
  with ReadData show ?thesis by (auto simp: mtls_stdin_def read_server_def)
next
  case ReadEof
  then show ?thesis by (intro exI [of _ "[]"] exI [of _ False]) (simp add: mtls_stdin_def read_server_def tell_def)
next
  case ReadError
  then show ?thesis by (intro exI [of _ "[]"] exI [of _ False]) (simp add: mtls_stdin_def read_server_def tell_def)
qed

lemma mtls_turn_ok:
  assumes "mtls_inv st"
  shows "\<exists>st'. mtls_turn rd st = Goes st' \<and> mtls_inv st'"
proof -
  let ?st1 = "st\<lparr>fds := do_poll (poll_ret rd) (ready rd) (nfds st) (fds st)\<rparr>"
  have i1: "mtls_inv ?st1" by (rule mtls_inv_poll [OF assms])
  obtain st2 go2 where acc: "(if 0 < poll_ret rd \<and> revents (fds ?st1 ! 0) then mtls_accept rd ?st1
      else (?st1, True)) = (st2, go2)" by (rule prod.exhaust)
  then have i2: "mtls_inv st2" using i1 mtls_inv_accept [OF i1, of rd] by (metis fst_conv)
  obtain es go where "mtls_stdin rd st2 = Inr (tell es st2, go)" using mtls_stdin_ok [OF i2] by blast
  then obtain st3 go3 where std:
    "(if 0 < poll_ret rd \<and> revents (fds st2 ! 1) then mtls_stdin rd st2 else Inr (st2, True)) = Inr (st3, go3)"
    and i3: "mtls_inv st3"
    using i2 by (cases "0 < poll_ret rd \<and> revents (fds st2 ! 1)") auto
  obtain st4 where "monitor_clients rd [2..<TLS_MAX_CLIENTS] st3 = Inr st4" "mtls_inv st4"
    using monitor_clients_ok [OF i3, of "[2..<TLS_MAX_CLIENTS]"] by auto
  then have "mtls_turn rd st = Goes (if \<not> go2 then st2 else if \<not> go3 then st3 else if 0 < poll_ret rd then st4 else st3)"
    unfolding mtls_turn_def Let_def acc prod.case std sum.case by simp
  then show ?thesis using i2 i3 \<open>mtls_inv st4\<close> by simp
qed

interpretation mtls_server: endless_turn_machine mtls_turn "\<lambda>_ _. True" mtls_inv
proof (unfold_locales, goal_cases)
  case (1 s i s')
  then show ?case using mtls_turn_ok [of s i] by auto
next
  case (2 s i s')
  then show ?case using mtls_turn_ok [of s i] by auto
next
  case (3 s i)
  then show ?case using mtls_turn_ok [of s i] by auto
qed

subsection \<open>Which clients are polled\<close>

definition all_polled :: "mtls_server \<Rightarrow> bool" where
  "all_polled st \<longleftrightarrow> (\<forall>i. mtls_live st i \<longrightarrow> int i < nfds st)"

definition disconnects :: "ssl_read_result \<Rightarrow> bool" where
  "disconnects r \<longleftrightarrow> r \<in> SslFail ` {SSL_ERROR_ZERO_RETURN, SSL_ERROR_SYSCALL, SSL_ERROR_SSL, SSL_ERROR_OTHER}"

lemma monitor_disconnects:
  assumes "mtls_inv st" and "mtls_live st i" and "disconnects (ssl_read rd i)"
  shows "\<exists>st'. monitor rd i st = Inr st' \<and> nfds st' = nfds st - 1 \<and>
    fds st' = (fds st)[i := (fds st ! i)\<lparr>pfd := - 1\<rparr>]"
proof -
  obtain obj where "ssl_object st i = Inr obj" using ssl_object_live [OF assms(1,2)] by blast
  with assms(3) show ?thesis
    by (auto simp: monitor_def monitor_cleanup_def disconnects_def monitor_error_sel)
qed

lemma live_after_release:
  assumes "mtls_inv st" and "mtls_live st i" and "fds st' = (fds st)[i := p]" and "pfd p = - 1"
  shows "mtls_live st' j \<longleftrightarrow> j \<noteq> i \<and> mtls_live st j"
proof -
  have "i < length (fds st)" using assms by (simp add: mtls_inv_def mtls_live_def)
  then show ?thesis using assms by (auto simp: mtls_live_def nth_list_update)
qed

lemma broadcast_events:
  "mtls_inv st \<Longrightarrow> (\<And>i. i \<in> set is \<Longrightarrow> 2 \<le> i \<and> i < TLS_MAX_CLIENTS) \<Longrightarrow>
     \<exists>objs. map SslObj objs = map (\<lambda>i. ssls st ! i) (filter (mtls_live st) is) \<and>
       broadcast buf is st = Inr (tell (map (\<lambda>obj. MSslWrite obj buf) objs) st)"
proof (induction "is" arbitrary: st)
  case Nil
  show ?case by (simp add: tell_def)
next
  case (Cons i "is")
  have live: "pfd (fds st ! i) \<noteq> - 1 \<longleftrightarrow> mtls_live st i"
    using Cons.prems(2) [of i] by (auto simp: mtls_live_def)
  show ?case
  proof (cases "mtls_live st i")
    case False
    with Cons live show ?thesis by simp
  next
    case True
    with Cons.prems(1) obtain obj where obj: "ssl_object st i = Inr obj" "ssls st ! i = SslObj obj"
      using ssl_object_live by blast
    obtain objs where objs: "map SslObj objs = map (\<lambda>i. ssls st ! i) (filter (mtls_live st) is)"
      "broadcast buf is (tell [MSslWrite obj buf] st) =
         Inr (tell (map (\<lambda>obj. MSslWrite obj buf) objs) (tell [MSslWrite obj buf] st))"
      using Cons.IH [of "tell [MSslWrite obj buf] st"] Cons.prems by auto
    then have "broadcast buf (i # is) st = Inr (tell (map (\<lambda>obj. MSslWrite obj buf) (obj # objs)) st)"
      using True live obj by (simp add: tell_def)
    with objs(1) True obj show ?thesis by (intro exI [of _ "obj # objs"]) simp
  qed
qed

lemma mtls_accept_fails:
  assumes inv: "mtls_inv st" and acc: "accepted rd = Some (fd, ip)"
    and bad: "first_free (fds st) [2..<TLS_MAX_CLIENTS] = None \<or>
      \<not> ssl_new_ok rd \<or> \<not> ssl_set_fd_ok rd \<or> ssl_accept_ret rd \<le> 0"
  shows "\<exists>st'. mtls_accept rd st = (st', False) \<and> MClose fd \<in> set (log st') \<and>
    (\<forall>j. mtls_live st' j = mtls_live st j) \<and>
    (next_obj st' = next_obj st \<and> freed st' = freed st \<or>
     next_obj st' = next_obj st + 1 \<and> freed st' = next_obj st # freed st)"
proof (cases "first_free (fds st) [2..<TLS_MAX_CLIENTS]")
  case None
  then show ?thesis using acc by (simp add: mtls_accept_def tcp_accept_function_def)
next
  case (Some i)
  define st1 where "st1 = fst (tcp_accept_function rd st)"
  have tcp: "tcp_accept_function rd st = (st1, Some i)"
    using Some acc by (simp add: tcp_accept_function_def st1_def)
  have t: "pfd (fds st ! i) = - 1" "fds st1 = (fds st)[i := \<lparr>pfd = fd, events = True, revents = False\<rparr>]"
    "i < length (fds st)" "next_obj st1 = next_obj st" "freed st1 = freed st"
    using tcp_accept_Some [OF tcp] acc inv by (auto simp: mtls_inv_def)
  have "\<not> snd (tls_accept_function rd i st1)"
    using bad Some by (auto simp: tls_accept_function_def Let_def)
  then obtain st2 where tls: "tls_accept_function rd i st1 = (st2, False)"
    by (cases "tls_accept_function rd i st1") auto
  have f: "fds st2 = fds st1" "next_obj st2 = next_obj st \<and> freed st2 = freed st \<or>
      next_obj st2 = next_obj st + 1 \<and> freed st2 = next_obj st # freed st"
    using tls_accept_False [OF tls] t by auto
  let ?st' = "tell [MClose (pfd (fds st2 ! i))]
      (st2\<lparr>fds := (fds st2)[i := (fds st2 ! i)\<lparr>pfd := - 1\<rparr>], nfds := nfds st2 - 1\<rparr>)"
  have "mtls_accept rd st = (?st', False)" using tcp tls by (simp add: mtls_accept_def)
  moreover have "MClose fd \<in> set (log ?st')" using t f by simp
  moreover have "mtls_live ?st' j = mtls_live st j" for j
    using t f by (auto simp: mtls_live_def nth_list_update)
  ultimately show ?thesis using f(2) by auto
qed

subsection \<open>Properties\<close>

text \<open>
  (C1) Memory safety of the TLS objects: whatever the kernel and OpenSSL answer in whichever turns, the
  loop never hands a NULL or freed object to OpenSSL and never frees one twice; every client slot in
  use holds an unfreed object of its own, and \<open>nfds\<close> stays between 2 and the size of the arrays.
\<close>

theorem mtls_server_memory_safe:
  "\<exists>st. run_turns mtls_turn rds (mtls_init socket_fd garbage) = Goes st \<and>
     2 \<le> nfds st \<and> nfds st \<le> int TLS_MAX_CLIENTS \<and> distinct (freed st) \<and>
     (\<forall>i. mtls_live st i \<longrightarrow> (\<exists>obj. ssls st ! i = SslObj obj \<and> obj \<notin> set (freed st))) \<and>
     (\<forall>i j. mtls_live st i \<and> mtls_live st j \<and> ssls st ! i = ssls st ! j \<longrightarrow> i = j)"
proof -
  obtain st where "run_turns mtls_turn rds (mtls_init socket_fd garbage) = Goes st" "mtls_inv st"
    using mtls_server.run_total [OF mtls_inv_init, of rds] by auto
  then show ?thesis by (intro exI [of _ st]) (fastforce simp: mtls_inv_def)
qed

definition mtls_demo_round :: "(int \<times> string) option \<Rightarrow> (nat \<Rightarrow> bool) \<Rightarrow> ssl_read_result \<Rightarrow> mtls_round" where
  "mtls_demo_round acc rdy result =
     \<lparr>poll_ret = 1, ready = rdy, accepted = acc, ssl_new_ok = True, ssl_set_fd_ok = True, ssl_accept_ret = 1,
      stdin_read = ReadEof, ssl_read = (\<lambda>_. result)\<rparr>"

text \<open>Two clients connect, then the first one closes its connection.\<close>

definition mtls_demo_run :: "mtls_round list" where
  "mtls_demo_run =
     [mtls_demo_round (Some (4, ''10.0.0.1'')) (\<lambda>i. i = 0) (SslData []),
      mtls_demo_round (Some (5, ''10.0.0.2'')) (\<lambda>i. i = 0) (SslData []),
      mtls_demo_round None (\<lambda>i. i = 2) (SslFail SSL_ERROR_ZERO_RETURN)]"

definition mtls_demo_garbage :: "pollfd list" where
  "mtls_demo_garbage = replicate 102 \<lparr>pfd = 7, events = False, revents = False\<rparr>"

theorem mtls_server_memory_safe_witness:
  "\<exists>st. run_turns mtls_turn mtls_demo_run (mtls_init 3 mtls_demo_garbage) = Goes st \<and>
     (\<forall>i. mtls_live st i \<longrightarrow> (\<exists>obj. ssls st ! i = SslObj obj \<and> obj \<notin> set (freed st)))"
  using mtls_server_memory_safe [of mtls_demo_run 3 mtls_demo_garbage] by blast

text \<open>
  (C15) The polled range: when the client in slot \<open>i\<close> disconnects, \<open>monitor\<close> frees exactly that slot and
  lowers \<open>nfds\<close> by one.  That keeps every remaining client in the polled range only if the last polled
  slot is the one that was freed, or is empty; otherwise the client in it is no longer polled.
\<close>

theorem mtls_disconnect_polled_iff:
  assumes "run_turns mtls_turn rds (mtls_init socket_fd garbage) = Goes st" and "all_polled st"
    and "mtls_live st i" and "disconnects (ssl_read rd i)"
  shows "\<exists>st'. monitor rd i st = Inr st' \<and> (\<forall>j. mtls_live st' j \<longleftrightarrow> j \<noteq> i \<and> mtls_live st j) \<and>
    (all_polled st' \<longleftrightarrow> (\<forall>j. int j = nfds st - 1 \<and> mtls_live st j \<longrightarrow> j = i))"
proof -
  have inv: "mtls_inv st" using mtls_server.run_goes [OF mtls_inv_init _ assms(1)] by simp
  obtain st' where st': "monitor rd i st = Inr st'" "nfds st' = nfds st - 1"
    "fds st' = (fds st)[i := (fds st ! i)\<lparr>pfd := - 1\<rparr>]"
    using monitor_disconnects [OF inv assms(3,4)] by blast
  have live: "mtls_live st' j \<longleftrightarrow> j \<noteq> i \<and> mtls_live st j" for j
    by (rule live_after_release [OF inv assms(3) st'(3)]) simp
  have "all_polled st' \<longleftrightarrow> (\<forall>j. int j = nfds st - 1 \<and> mtls_live st j \<longrightarrow> j = i)"
    using assms(2) unfolding all_polled_def live st'(2) by (metis linorder_less_linear zle_diff1_eq not_less)
  with st'(1) live show ?thesis by blast
qed

text \<open>
  The server can lose a connected client: there is a run in which a client is still in its slot,
  with its connection open, but outside the range that is polled and broadcast to.
\<close>

lemma mtls_server_loses_client:
  "\<exists>rds st i. run_turns mtls_turn rds (mtls_init 3 mtls_demo_garbage) = Goes st \<and>
     mtls_live st i \<and> nfds st \<le> int i"
proof -
  have "case run_turns mtls_turn mtls_demo_run (mtls_init 3 mtls_demo_garbage) of
      Goes st \<Rightarrow> mtls_live st 3 \<and> nfds st \<le> 3 | _ \<Rightarrow> False"
    by code_simp
  then obtain st where "run_turns mtls_turn mtls_demo_run (mtls_init 3 mtls_demo_garbage) = Goes st"
    "mtls_live st 3" "nfds st \<le> int 3"
    by (auto split: turn.splits)
  then show ?thesis by blast
qed

theorem mtls_disconnect_polled_iff_witness:
  "\<exists>st st'. run_turns mtls_turn (take 2 mtls_demo_run) (mtls_init 3 mtls_demo_garbage) = Goes st \<and>
     monitor (mtls_demo_round None (\<lambda>i. i = 2) (SslFail SSL_ERROR_ZERO_RETURN)) 2 st = Inr st' \<and>
     \<not> all_polled st'"
proof -
  let ?rd = "mtls_demo_round None (\<lambda>i. i = 2) (SslFail SSL_ERROR_ZERO_RETURN)"
  have "case run_turns mtls_turn (take 2 mtls_demo_run) (mtls_init 3 mtls_demo_garbage) of
      Goes st \<Rightarrow> mtls_live st 2 \<and> mtls_live st 3 \<and> nfds st = 4 \<and> list_all (\<lambda>i. \<not> mtls_live st i) [4..<102]
    | _ \<Rightarrow> False"
    by code_simp
  then obtain st where run: "run_turns mtls_turn (take 2 mtls_demo_run) (mtls_init 3 mtls_demo_garbage) = Goes st"
    and st: "mtls_live st 2" "mtls_live st 3" "nfds st = 4" "list_all (\<lambda>i. \<not> mtls_live st i) [4..<102]"
    by (auto split: turn.splits)
  have "all_polled st"
    unfolding all_polled_def
  proof (intro allI impI)
    fix i assume "mtls_live st i"
    moreover from this have "i < 102" by (simp add: mtls_live_def TLS_MAX_CLIENTS_def)
    ultimately have "i < 4" using st(4) unfolding list_all_iff set_upt atLeastLessThan_iff by force
    then show "int i < nfds st" using st(3) by simp
  qed
  from mtls_disconnect_polled_iff [OF run this st(1), of ?rd] run st(2,3) show ?thesis
    by (force simp: disconnects_def mtls_demo_round_def)
qed

text \<open>
  A broadcast writes the line to the object of every client in a slot below \<open>nfds\<close>, once each and
  in slot order, and to nothing else.
\<close>

lemma mtls_broadcast_exact:
  assumes "run_turns mtls_turn rds (mtls_init socket_fd garbage) = Goes st"
    and "stdin_read rd = ReadData buf"
  shows "\<exists>objs st'. mtls_stdin rd st = Inr (st', True) \<and>
    log st' = log st @ map (\<lambda>obj. MSslWrite obj buf) objs \<and> distinct objs \<and>
    set (map SslObj objs) = {ssls st ! i | i. mtls_live st i \<and> int i < nfds st}"
proof -
  have inv: "mtls_inv st" using mtls_server.run_goes [OF mtls_inv_init _ assms(1)] by simp
  let ?is = "[2..<nat (nfds st)]"
  have "2 \<le> i \<and> i < TLS_MAX_CLIENTS" if "i \<in> set ?is" for i
    using that inv by (auto simp: mtls_inv_def)
  then obtain objs where objs: "map SslObj objs = map (\<lambda>i. ssls st ! i) (filter (mtls_live st) ?is)"
    "broadcast buf ?is st = Inr (tell (map (\<lambda>obj. MSslWrite obj buf) objs) st)"
    using broadcast_events [OF inv, of ?is buf] by blast
  have "inj_on (\<lambda>i. ssls st ! i) (set (filter (mtls_live st) ?is))"
    using inv by (auto simp: inj_on_def mtls_inv_def)
  then have "distinct (map SslObj objs)" unfolding objs(1) by (simp add: distinct_map)
  then have "distinct objs" by (simp add: distinct_map)
  moreover have "set (map SslObj objs) = {ssls st ! i | i. mtls_live st i \<and> int i < nfds st}"
    unfolding objs(1) by (auto simp: mtls_live_def)
  ultimately show ?thesis using objs(2) assms(2) by (auto simp: mtls_stdin_def read_server_def)
qed



end
