(* ===== verification/Mtls_Room.thy ===== *)
theory Mtls_Room
  imports Chat_Room Mtls_Server
begin

text \<open>
  The mutual-TLS server of \<^verbatim>\<open>src/projects/networking/mtls-chat/server.c\<close> implements a chat room of 100
  members (\<open>Chat_Room\<close>) in which a broadcast may miss members; it is an exact room as long as every
  client is within \<open>nfds\<close> at the head of each turn.  A member is an OpenSSL object with its descriptor.
\<close>

subsection \<open>Reading the room off the server\<close>

definition mtls_member :: "mtls_server \<Rightarrow> nat \<Rightarrow> nat \<times> int" where
  "mtls_member st i = ((case ssls st ! i of SslNull \<Rightarrow> 0 | SslObj obj \<Rightarrow> obj), pfd (fds st ! i))"

definition mtls_members :: "mtls_server \<Rightarrow> (nat \<times> int) set" where
  "mtls_members st = mtls_member st ` {i. mtls_live st i}"

fun mtls_quiet :: "mtls_event \<Rightarrow> bool" where
  "mtls_quiet (MSslWrite _ _) = False"
| "mtls_quiet _ = True"

fun mtls_render :: "(nat \<times> int, mtls_event) room_action \<Rightarrow> mtls_event list" where
  "mtls_render (Join (obj, fd) ip) =
     [MNonblock fd, MSslAccept obj fd, MIo (Out (''[client connected: '' @ ip @ '']'' @ [NL]))]"
| "mtls_render (Say cs buf) = map (\<lambda>(obj, fd). MSslWrite obj buf) cs"
| "mtls_render (Hear c buf) = [MWriteOut buf]"
| "mtls_render (Leave (obj, fd)) = [MSslFree obj, MClose fd]"
| "mtls_render (Note es) = es"

abbreviation mtls_follows :: "bool \<Rightarrow> mtls_server \<Rightarrow> mtls_server \<Rightarrow> bool" where
  "mtls_follows exact st st' \<equiv>
     follows (TLS_MAX_CLIENTS - 2) exact mtls_quiet mtls_render (mtls_members st, log st) (mtls_members st', log st')"

lemma mtls_members_cong:
  assumes "\<And>i. mtls_live st' i = mtls_live st i" and "\<And>i. mtls_live st i \<Longrightarrow> ssls st' ! i = ssls st ! i"
    and "\<And>i. mtls_live st i \<Longrightarrow> pfd (fds st' ! i) = pfd (fds st ! i)"
  shows "mtls_members st' = mtls_members st"
  using assms by (auto simp: mtls_members_def mtls_member_def intro!: image_cong)

lemma mtls_members_tell [simp]: "mtls_members (tell es st) = mtls_members st"
  by (rule mtls_members_cong) simp_all

lemma mtls_members_poll:
  assumes "mtls_inv st"
  shows "mtls_members (st\<lparr>fds := do_poll r rdy (nfds st) (fds st)\<rparr>) = mtls_members st"
  by (rule mtls_members_cong) (use assms in \<open>auto simp: mtls_live_def mtls_inv_def\<close>)

lemma mtls_member_obj:
  assumes "mtls_inv st" and "mtls_live st i"
  shows "ssls st ! i = SslObj (fst (mtls_member st i))" and "fst (mtls_member st i) < next_obj st"
  using assms by (fastforce simp: mtls_inv_def mtls_member_def)+

lemma mtls_member_inj: "mtls_inv st \<Longrightarrow> inj_on (mtls_member st) {i. mtls_live st i}"
  using mtls_member_obj(1) by (intro inj_onI) (metis mem_Collect_eq mtls_inv_def)

lemma mtls_members_card:
  assumes "mtls_inv st" and "2 \<le> i" "i < TLS_MAX_CLIENTS" "\<not> mtls_live st i"
  shows "finite (mtls_members st) \<and> card (mtls_members st) < TLS_MAX_CLIENTS - 2"
proof -
  have sub: "{i. mtls_live st i} \<subseteq> {2..<TLS_MAX_CLIENTS} - {i}" using assms(4) by (auto simp: mtls_live_def)
  then have fin: "finite {i. mtls_live st i}" by (rule finite_subset) simp
  have "card (mtls_members st) \<le> card {i. mtls_live st i}"
    unfolding mtls_members_def using fin by (rule card_image_le)
  also have "\<dots> \<le> card ({2..<TLS_MAX_CLIENTS} - {i})" using sub by (intro card_mono) simp_all
  also have "\<dots> < TLS_MAX_CLIENTS - 2" using assms(2,3) by (simp add: TLS_MAX_CLIENTS_def)
  finally show ?thesis using fin by (simp add: mtls_members_def)
qed

subsection \<open>Each part of a turn\<close>

lemma mtls_follows_note:
  "list_all mtls_quiet es \<Longrightarrow> mtls_members st' = mtls_members st \<Longrightarrow> log st' = log st @ es \<Longrightarrow>
     mtls_follows exact st st'"
  by (rule follows_action [of _ _ _ _ "Note es"]) simp_all

text \<open>Slot \<open>i\<close>, free before, holds the new object; or it is free again.\<close>

lemma mtls_members_join:
  assumes inv: "mtls_inv st" and i: "2 \<le> i" "i < TLS_MAX_CLIENTS" "pfd (fds st ! i) = - 1"
    and f: "fds st' = (fds st)[i := p]" "pfd p \<noteq> - 1" and s: "ssls st' = (ssls st)[i := SslObj obj]"
  shows "mtls_members st' = insert (obj, pfd p) (mtls_members st)"
proof -
  have len: "i < length (fds st)" "i < length (ssls st)" using inv i by (simp_all add: mtls_inv_def)
  have live: "{j. mtls_live st' j} = insert i {j. mtls_live st j}"
    using len(1) f i by (auto simp: mtls_live_def nth_list_update)
  have "\<not> mtls_live st i" using i(3) by (simp add: mtls_live_def)
  then have "mtls_member st' j = mtls_member st j" if "mtls_live st j" for j
    using that f s by (cases "j = i") (auto simp: mtls_member_def)
  then have "mtls_member st' ` {j. mtls_live st j} = mtls_members st"
    unfolding mtls_members_def by (intro image_cong) auto
  moreover have "mtls_member st' i = (obj, pfd p)" using len f s by (simp add: mtls_member_def)
  ultimately show ?thesis unfolding mtls_members_def [of st'] live by simp
qed

lemma mtls_members_free:
  assumes inv: "mtls_inv st" and i: "2 \<le> i" "i < TLS_MAX_CLIENTS"
    and f: "fds st' = (fds st)[i := p]" "pfd p = - 1" and s: "ssls st' = (ssls st)[i := q]"
  shows "mtls_members st' = mtls_member st ` ({j. mtls_live st j} - {i})"
proof -
  have len: "i < length (fds st)" using inv i by (simp add: mtls_inv_def)
  have live: "{j. mtls_live st' j} = {j. mtls_live st j} - {i}"
    using len f by (auto simp: mtls_live_def nth_list_update)
  have "mtls_member st' j = mtls_member st j" if "j \<noteq> i" for j using that f s by (simp add: mtls_member_def)
  then show ?thesis unfolding mtls_members_def [of st'] live by (intro image_cong) auto
qed

lemma mtls_members_leave:
  assumes inv: "mtls_inv st" and live: "mtls_live st i"
    and f: "fds st' = (fds st)[i := p]" "pfd p = - 1" and s: "ssls st' = (ssls st)[i := q]"
  shows "mtls_members st' = mtls_members st - {mtls_member st i}"
proof -
  have "2 \<le> i" "i < TLS_MAX_CLIENTS" using live by (simp_all add: mtls_live_def)
  then have "mtls_members st' = mtls_member st ` ({j. mtls_live st j} - {i})"
    by (rule mtls_members_free [OF inv _ _ f s])
  also have "\<dots> = mtls_members st - {mtls_member st i}"
    unfolding mtls_members_def
    by (subst inj_on_image_set_diff [OF mtls_member_inj [OF inv]]) (use live in auto)
  finally show ?thesis .
qed

text \<open>The descriptor of an accepted connection is a descriptor.\<close>

definition mtls_ok :: "mtls_round \<Rightarrow> mtls_server \<Rightarrow> bool" where
  "mtls_ok rd st = (case accepted rd of None \<Rightarrow> True | Some (fd, ip) \<Rightarrow> 0 \<le> fd)"

lemma tls_accept_quiet:
  "tls_accept_function rd i st = (st2, ok) \<Longrightarrow> \<exists>es. log st2 = log st @ es \<and> list_all mtls_quiet es"
  by (auto simp: tls_accept_function_def Let_def ssl_free_def split: if_splits)

lemma mtls_accept_cases:
  assumes "accepted rd = Some (fd, ip)" and "first_free (fds st) [2..<TLS_MAX_CLIENTS] = Some i"
    and "i < length (fds st)"
  shows "if ssl_new_ok rd \<and> ssl_set_fd_ok rd \<and> 0 < ssl_accept_ret rd
    then mtls_accept rd st =
      (tell (mtls_render (Join (next_obj st, fd) ip))
        (st\<lparr>fds := (fds st)[i := \<lparr>pfd = fd, events = True, revents = False\<rparr>],
            ssls := (ssls st)[i := SslObj (next_obj st)], nfds := max (nfds st) (int i + 1),
            next_obj := next_obj st + 1\<rparr>), True)
    else \<exists>st' p q es. mtls_accept rd st = (st', False) \<and> fds st' = (fds st)[i := p] \<and> pfd p = - 1 \<and>
      ssls st' = (ssls st)[i := q] \<and> log st' = log st @ es \<and> list_all mtls_quiet es"
proof (cases "ssl_new_ok rd \<and> ssl_set_fd_ok rd \<and> 0 < ssl_accept_ret rd")
  case True
  then show ?thesis
    using assms by (auto simp: mtls_accept_def tcp_accept_function_def tls_accept_function_def Let_def tell_def)
next
  case False
  define st1 where "st1 = fst (tcp_accept_function rd st)"
  have tcp: "tcp_accept_function rd st = (st1, Some i)" and
    t: "fds st1 = (fds st)[i := \<lparr>pfd = fd, events = True, revents = False\<rparr>]" "log st1 = log st @ [MNonblock fd]"
      "ssls st1 = ssls st"
    using assms(1,2) by (auto simp: tcp_accept_function_def st1_def)
  have "\<not> snd (tls_accept_function rd i st1)" using False by (auto simp: tls_accept_function_def Let_def)
  then obtain st2 where tls: "tls_accept_function rd i st1 = (st2, False)"
    by (cases "tls_accept_function rd i st1") auto
  obtain q where f: "fds st2 = fds st1" "ssls st2 = (ssls st1)[i := q]" using tls_accept_False [OF tls] by blast
  obtain es where es: "log st2 = log st1 @ es" "list_all mtls_quiet es" using tls_accept_quiet [OF tls] by blast
  from False show ?thesis
    using tcp tls t f es assms(3)
    by (simp only: if_False) (auto simp: mtls_accept_def intro!: exI [of _ "\<lparr>pfd = - 1, events = True, revents = False\<rparr>"])
qed

lemma mtls_next_new: "mtls_inv st \<Longrightarrow> (next_obj st, fd) \<notin> mtls_members st"
proof
  assume inv: "mtls_inv st" and "(next_obj st, fd) \<in> mtls_members st"
  then obtain j where "mtls_live st j" "mtls_member st j = (next_obj st, fd)" by (auto simp: mtls_members_def)
  then show False using mtls_member_obj(2) [OF inv, of j] by simp
qed

text \<open>A connection that is accepted into slot \<open>i\<close> joins if its handshake succeeds, and is not seen otherwise.\<close>

lemma mtls_follows_handshake:
  assumes inv: "mtls_inv st" and p: "accepted rd = Some (fd, ip)" "0 \<le> fd"
    and free: "first_free (fds st) [2..<TLS_MAX_CLIENTS] = Some i"
  shows "mtls_follows exact st (fst (mtls_accept rd st))"
proof -
  have i: "2 \<le> i" "i < TLS_MAX_CLIENTS" "pfd (fds st ! i) = - 1" using first_free_Some [OF free] by auto
  then have dead: "\<not> mtls_live st i" and len: "i < length (fds st)" using inv by (simp_all add: mtls_live_def mtls_inv_def)
  note cases = mtls_accept_cases [OF p(1) free len]
  show ?thesis
  proof (cases "ssl_new_ok rd \<and> ssl_set_fd_ok rd \<and> 0 < ssl_accept_ret rd")
    case True
    have "mtls_members (fst (mtls_accept rd st)) = insert (next_obj st, fd) (mtls_members st)"
      using cases True p(2)
      by (subst mtls_members_join [OF inv i, of _ "\<lparr>pfd = fd, events = True, revents = False\<rparr>" "next_obj st"]) auto
    moreover have "log (fst (mtls_accept rd st)) = log st @ mtls_render (Join (next_obj st, fd) ip)"
      using cases True by simp
    ultimately show ?thesis using mtls_members_card [OF inv i(1,2) dead] mtls_next_new [OF inv]
      by (intro follows_action [of _ _ _ _ "Join (next_obj st, fd) ip"]) simp_all
  next
    case False
    then obtain st' p q es where st': "mtls_accept rd st = (st', False)" "fds st' = (fds st)[i := p]" "pfd p = - 1"
      "ssls st' = (ssls st)[i := q]" "log st' = log st @ es" "list_all mtls_quiet es"
      using cases by auto
    have "mtls_members st' = mtls_members st"
      using mtls_members_free [OF inv i(1,2) st'(2-4)] dead by (simp add: mtls_members_def)
    then have "mtls_follows exact st st'" using st'(5,6) by (intro mtls_follows_note)
    with st'(1) show ?thesis by simp
  qed
qed

lemma mtls_follows_accept:
  assumes inv: "mtls_inv st" and ok: "mtls_ok rd st"
  shows "mtls_follows exact st (fst (mtls_accept rd st))"
proof (cases "accepted rd")
  case None
  then show ?thesis
    by (intro mtls_follows_note [of "[MIo (Perror ''accept'')]"])
      (simp_all add: mtls_accept_def tcp_accept_function_def)
next
  case (Some p)
  obtain fd ip where p: "accepted rd = Some (fd, ip)" using Some by (cases p) simp
  show ?thesis
  proof (cases "first_free (fds st) [2..<TLS_MAX_CLIENTS]")
    case None
    with p show ?thesis
      by (intro mtls_follows_note [of "[MIo (Err (''[max clients reached]'' @ [NL])), MClose fd]"])
        (simp_all add: mtls_accept_def tcp_accept_function_def)
  next
    case (Some i)
    with p ok show ?thesis by (intro mtls_follows_handshake [OF inv p]) (simp_all add: mtls_ok_def)
  qed
qed

text \<open>Accepting keeps every client in the polled range, unless the turn stops there.\<close>

lemma accept_keeps_polled:
  assumes inv: "mtls_inv st" and "all_polled st" and "snd (mtls_accept rd st)"
  shows "all_polled (fst (mtls_accept rd st))"
proof (cases "accepted rd")
  case (Some p)
  obtain fd ip where p: "accepted rd = Some (fd, ip)" using Some by (cases p) simp
  then obtain i where i: "first_free (fds st) [2..<TLS_MAX_CLIENTS] = Some i"
    using assms(3) by (cases "first_free (fds st) [2..<TLS_MAX_CLIENTS]") (auto simp: mtls_accept_def tcp_accept_function_def)
  have len: "i < length (fds st)" using inv first_free_Some [OF i] by (auto simp: mtls_inv_def)
  have "fds (fst (mtls_accept rd st)) = (fds st)[i := \<lparr>pfd = fd, events = True, revents = False\<rparr>]"
    and "nfds (fst (mtls_accept rd st)) = max (nfds st) (int i + 1)"
    using mtls_accept_cases [OF p i len] assms(3) by (auto split: if_splits)
  then show ?thesis
    using assms(2) len unfolding all_polled_def mtls_live_def by (auto simp: nth_list_update less_max_iff_disj)
qed (use assms(3) in \<open>simp add: mtls_accept_def tcp_accept_function_def\<close>)

lemma mtls_follows_stdin:
  assumes inv: "mtls_inv st" and exact: "exact \<Longrightarrow> all_polled st" and run: "mtls_stdin rd st = Inr (st', go)"
  shows "mtls_follows exact st st' \<and> mtls_inv st'"
proof (cases "stdin_read rd")
  case (ReadData buf)
  let ?is = "filter (mtls_live st) [2..<nat (nfds st)]"
  have "2 \<le> i \<and> i < TLS_MAX_CLIENTS" if "i \<in> set [2..<nat (nfds st)]" for i
    using that inv by (auto simp: mtls_inv_def)
  then obtain objs where objs: "map SslObj objs = map (\<lambda>i. ssls st ! i) ?is"
    "broadcast buf [2..<nat (nfds st)] st = Inr (tell (map (\<lambda>obj. MSslWrite obj buf) objs) st)"
    using broadcast_events [OF inv, of "[2..<nat (nfds st)]" buf] by blast
  have live: "i \<in> set ?is \<Longrightarrow> mtls_live st i" for i by simp
  have "map SslObj objs = map SslObj (map (fst \<circ> mtls_member st) ?is)"
    unfolding objs(1) map_map by (rule map_cong) (use mtls_member_obj(1) [OF inv] in auto)
  then have "objs = map (fst \<circ> mtls_member st) ?is" by (rule map_injective) (simp add: inj_def)
  moreover define cs where "cs = map (mtls_member st) ?is"
  ultimately have log': "map (\<lambda>obj. MSslWrite obj buf) objs = mtls_render (Say cs buf)"
    by (simp add: case_prod_beta)
  have "distinct cs" using mtls_member_inj [OF inv] by (simp add: cs_def distinct_map inj_on_def)
  moreover have "set cs \<subseteq> mtls_members st" by (auto simp: cs_def mtls_members_def)
  moreover have "set cs = mtls_members st" if exact
    using assms(2) [OF that] by (auto simp: cs_def mtls_members_def all_polled_def mtls_live_def intro!: image_eqI)
  ultimately have "mtls_follows exact st (tell (mtls_render (Say cs buf)) st)"
    by (intro follows_action [of _ _ _ _ "Say cs buf"]) simp_all
  moreover have "st' = tell (mtls_render (Say cs buf)) st"
    using run ReadData objs(2) unfolding log' by (simp add: mtls_stdin_def read_server_def)
  ultimately show ?thesis using inv by simp
qed (use run inv in \<open>auto simp: mtls_stdin_def read_server_def follows_refl\<close>)

lemma mtls_follows_error:
  assumes inv: "mtls_inv st" and live: "mtls_live st i" and obj: "ssls st ! i = SslObj obj"
  shows "mtls_follows exact st (monitor_error obj i st)"
proof (rule follows_action [of _ _ _ _ "Leave (obj, pfd (fds st ! i))"])
  have m: "mtls_member st i = (obj, pfd (fds st ! i))" using obj by (simp add: mtls_member_def)
  then have "(obj, pfd (fds st ! i)) \<in> mtls_members st" using live by (force simp: mtls_members_def)
  moreover have "mtls_members (monitor_error obj i st) = mtls_members st - {mtls_member st i}"
    by (rule mtls_members_leave [OF inv live monitor_error_sel(1) _ monitor_error_sel(2)]) simp
  ultimately show "room_step (TLS_MAX_CLIENTS - 2) exact mtls_quiet (mtls_members st) (Leave (obj, pfd (fds st ! i)))
      (mtls_members (monitor_error obj i st))"
    by (simp add: m)
qed (simp add: monitor_error_def ssl_free_def Let_def)

lemma mtls_follows_drop:
  assumes "mtls_inv st" and "mtls_live st i" and "ssls st ! i = SslObj obj" and "list_all mtls_quiet es"
  shows "mtls_follows exact st (monitor_error obj i (tell es st))"
proof -
  have "mtls_follows exact st (tell es st)" using assms(4) by (intro mtls_follows_note [of es]) simp_all
  moreover have "mtls_follows exact (tell es st) (monitor_error obj i (tell es st))"
    by (rule mtls_follows_error) (use assms in simp_all)
  ultimately show ?thesis by (rule follows_trans)
qed

lemma mtls_follows_monitor:
  assumes inv: "mtls_inv st" and live: "mtls_live st i" and run: "monitor rd i st = Inr st'"
  shows "mtls_follows exact st st'"
proof -
  obtain obj where obj: "ssl_object st i = Inr obj" "ssls st ! i = SslObj obj"
    using ssl_object_live [OF inv live] by blast
  have drop: "mtls_follows exact st (monitor_error obj i (tell es st))" if "list_all mtls_quiet es" for es
    by (rule mtls_follows_drop [OF inv live obj(2) that])
  have two: "tell es (tell es' st) = tell (es' @ es) st" for es es' by (simp add: tell_def)
  show ?thesis
  proof (cases "ssl_read rd i")
    case (SslData buf)
    have "mtls_member st i \<in> mtls_members st" using live by (simp add: mtls_members_def)
    then have "mtls_follows exact st (tell [MWriteOut buf] st)"
      by (intro follows_action [of _ _ _ _ "Hear (mtls_member st i) buf"]) simp_all
    with SslData obj run show ?thesis by (simp add: monitor_def)
  next
    case (SslFail e)
    then show ?thesis
      using run obj by (cases e) (auto simp: monitor_def monitor_cleanup_def two follows_refl intro!: drop)
  qed
qed

lemma mtls_follows_monitors:
  "mtls_inv st \<Longrightarrow> (\<And>i. i \<in> set is \<Longrightarrow> 2 \<le> i \<and> i < TLS_MAX_CLIENTS) \<Longrightarrow> monitor_clients rd is st = Inr st' \<Longrightarrow>
     mtls_follows exact st st'"
proof (induction "is" arbitrary: st)
  case (Cons i "is")
  show ?case
  proof (cases "int i < nfds st \<and> pfd (fds st ! i) \<noteq> - 1 \<and> revents (fds st ! i)")
    case True
    then have live: "mtls_live st i" using Cons.prems(2) [of i] by (simp add: mtls_live_def)
    with True Cons.prems(1) obtain s1 where s1: "monitor rd i st = Inr s1" "mtls_inv s1"
      using monitor_ok by blast
    have "mtls_follows exact st s1" by (rule mtls_follows_monitor [OF Cons.prems(1) live s1(1)])
    moreover have "mtls_follows exact s1 st'" by (rule Cons.IH) (use Cons.prems True s1 in auto)
    ultimately show ?thesis by (rule follows_trans)
  next
    case False
    with Cons show ?thesis by (auto simp: follows_refl split: if_splits)
  qed
qed (simp add: follows_refl)

lemma mtls_follows_turn:
  assumes inv: "mtls_inv st" and ok: "mtls_ok rd st" and exact: "exact \<Longrightarrow> all_polled st"
    and run: "mtls_turn rd st = Goes st'"
  shows "mtls_follows exact st st'"
proof -
  define st1 where "st1 = st\<lparr>fds := do_poll (poll_ret rd) (ready rd) (nfds st) (fds st)\<rparr>"
  have i1: "mtls_inv st1" unfolding st1_def by (rule mtls_inv_poll [OF inv])
  have f1: "mtls_follows exact st st1"
    using mtls_members_poll [OF inv] by (simp add: st1_def follows_refl)
  have ex1: "exact \<Longrightarrow> all_polled st1"
    using exact inv by (auto simp: st1_def all_polled_def mtls_live_def mtls_inv_def)
  obtain st2 go2 where acc: "(if 0 < poll_ret rd \<and> revents (fds st1 ! 0) then mtls_accept rd st1
      else (st1, True)) = (st2, go2)" by (rule prod.exhaust)
  have ok1: "mtls_ok rd st1" using ok by (simp add: mtls_ok_def)
  have i2: "mtls_inv st2" using acc i1 mtls_inv_accept [OF i1, of rd] by (metis fst_conv)
  have f2: "mtls_follows exact st st2"
    using acc f1 mtls_follows_accept [OF i1 ok1] by (metis follows_trans fst_conv)
  have ex2: "exact \<Longrightarrow> go2 \<Longrightarrow> all_polled st2"
    using acc ex1 accept_keeps_polled [OF i1, of rd] by (metis fst_conv snd_conv)
  show ?thesis
  proof (cases go2)
    case False
    then show ?thesis using run f2 unfolding mtls_turn_def Let_def st1_def [symmetric] acc by simp
  next
    case True
    let ?stdin = "if 0 < poll_ret rd \<and> revents (fds st2 ! 1) then mtls_stdin rd st2 else Inr (st2, True)"
    obtain st3 go3 where st3: "?stdin = Inr (st3, go3)" and
      turn: "(if \<not> go3 \<or> \<not> 0 < poll_ret rd then Goes st3
        else case monitor_clients rd [2..<TLS_MAX_CLIENTS] st3 of Inl u \<Rightarrow> Crashes u | Inr st4 \<Rightarrow> Goes st4) = Goes st'"
      using run True unfolding mtls_turn_def Let_def st1_def [symmetric] acc prod.case
      by (cases ?stdin) (auto simp only: simp_thms if_True if_False sum.case prod.case turn.distinct split: prod.splits if_splits)
    have "mtls_follows exact st2 st3 \<and> mtls_inv st3"
      using st3 i2 mtls_follows_stdin [OF i2, of exact rd st3 go3] ex2 True by (auto simp: follows_refl split: if_splits)
    then have f3: "mtls_follows exact st st3" and i3: "mtls_inv st3" using follows_trans [OF f2] by simp_all
    have "mtls_follows exact st st4" if "monitor_clients rd [2..<TLS_MAX_CLIENTS] st3 = Inr st4" for st4
      by (rule follows_trans [OF f3 mtls_follows_monitors [OF i3 _ that]]) simp
    with f3 turn show ?thesis by (auto split: if_splits sum.splits)
  qed
qed

interpretation mtls_room: room_server mtls_turn mtls_ok mtls_inv "TLS_MAX_CLIENTS - 2" False mtls_quiet
  mtls_members log mtls_render
proof (unfold_locales, goal_cases)
  case (1 s i s')
  then show ?case using mtls_server.goes [of s i s'] by simp
next
  case (2 s i s')
  then show ?case using mtls_server.ends [of s i s'] by simp
next
  case (3 s i s')
  then show ?case using mtls_follows_turn [of s i False s'] by (simp add: follows_def)
qed

text \<open>The environment of the exact room: no turn begins with a client out of range.\<close>

definition polled_ok :: "mtls_round \<Rightarrow> mtls_server \<Rightarrow> bool" where
  "polled_ok rd st \<longleftrightarrow> mtls_ok rd st \<and> all_polled st"

interpretation mtls_exact_room: room_server mtls_turn polled_ok mtls_inv "TLS_MAX_CLIENTS - 2" True mtls_quiet
  mtls_members log mtls_render
proof (unfold_locales, goal_cases)
  case (1 s i s')
  then show ?case using mtls_server.goes [of s i s'] by simp
next
  case (2 s i s')
  then show ?case using mtls_server.ends [of s i s'] by simp
next
  case (3 s i s')
  then show ?case using mtls_follows_turn [of s i True s'] by (simp add: follows_def polled_ok_def)
qed

lemma mtls_init_empty: "\<not> mtls_live (mtls_init socket_fd garbage) i"
  by (auto simp: mtls_live_def mtls_init_def TLS_MAX_CLIENTS_def nth_Cons' simp del: upt_Suc)

subsection \<open>Properties\<close>



end
