(* ===== verification/Mtls_App.thy ===== *)
theory Mtls_App
  imports Mtls_Server
begin

text \<open>
  The rest of \<^verbatim>\<open>src/projects/networking/mtls-chat\<close>: the mode dispatch of \<open>main.c\<close>, the set-up of the TLS
  contexts and of the sockets in \<open>server.c\<close> and \<open>client.c\<close>, and the client's poll loop.  What OpenSSL
  answers for the given files, and what the kernel answers, are parameters.
\<close>

subsection \<open>TLS contexts\<close>

datatype tls_method = TLS_server_method | TLS_client_method

datatype tls_version = TLS_ANY | TLS1_3_VERSION

record ssl_ctx =
  ctx_method :: tls_method
  ctx_ca :: "string option"
  ctx_client_ca_list :: "string option"
  ctx_cert :: "string option"
  ctx_key :: "string option"
  ctx_verify_peer :: bool
  ctx_fail_if_no_peer_cert :: bool
  ctx_verify_depth :: int
  ctx_min_proto :: tls_version
  ctx_session_cache_client :: bool
  ctx_new_session_cb :: bool

text \<open>The answers of OpenSSL: \<open>SSL_CTX_new\<close>, loading the three files, and the key check.\<close>

record openssl =
  ctx_new_ok :: bool
  load_verify_locations_ok :: "string \<Rightarrow> bool"
  use_certificate_ok :: "string \<Rightarrow> bool"
  use_private_key_ok :: "string \<Rightarrow> bool"
  key_matches :: "string \<Rightarrow> string \<Rightarrow> bool"

definition new_ctx :: "tls_method \<Rightarrow> ssl_ctx" where
  "new_ctx m =
     \<lparr>ctx_method = m, ctx_ca = None, ctx_client_ca_list = None, ctx_cert = None, ctx_key = None,
      ctx_verify_peer = False, ctx_fail_if_no_peer_cert = False, ctx_verify_depth = 100,
      ctx_min_proto = TLS_ANY, ctx_session_cache_client = False, ctx_new_session_cb = False\<rparr>"

definition server_setup_context :: "openssl \<Rightarrow> string \<Rightarrow> string \<Rightarrow> string \<Rightarrow> ssl_ctx outcome" where
  "server_setup_context ssl ca cert key =
     (if \<not> ctx_new_ok ssl then Exits [Perror ''SSL_CTX_new''] 1
      else let ctx = new_ctx TLS_server_method in
      if \<not> load_verify_locations_ok ssl ca then Exits [Perror ''set ca''] 1
      else let ctx = ctx\<lparr>ctx_ca := Some ca, ctx_client_ca_list := Some ca\<rparr> in
      if \<not> use_certificate_ok ssl cert then Exits [Perror ''set certificate''] 1
      else let ctx = ctx\<lparr>ctx_cert := Some cert\<rparr> in
      if \<not> use_private_key_ok ssl key then Exits [Perror ''Private key''] 1
      else let ctx = ctx\<lparr>ctx_key := Some key\<rparr> in
      if \<not> key_matches ssl cert key then Exits [Perror (''Private key and certificate don'' @ [CHR 0x27] @ ''t match'')] 1
      else Returns (ctx\<lparr>ctx_verify_peer := True, ctx_fail_if_no_peer_cert := True, ctx_verify_depth := 1,
                        ctx_min_proto := TLS1_3_VERSION\<rparr>))"

definition client_setup_context :: "openssl \<Rightarrow> string \<Rightarrow> string \<Rightarrow> string \<Rightarrow> ssl_ctx outcome" where
  "client_setup_context ssl ca cert key =
     (if \<not> ctx_new_ok ssl then Exits [Perror ''SSL_CTX_new''] 1
      else let ctx = new_ctx TLS_client_method in
      if \<not> load_verify_locations_ok ssl ca then Exits [Perror ''set ca''] 1
      else let ctx = ctx\<lparr>ctx_ca := Some ca\<rparr> in
      if \<not> use_certificate_ok ssl cert then Exits [Perror ''set certificate''] 1
      else let ctx = ctx\<lparr>ctx_cert := Some cert\<rparr> in
      if \<not> use_private_key_ok ssl key then Exits [Perror ''Private key''] 1
      else let ctx = ctx\<lparr>ctx_key := Some key\<rparr> in
      if \<not> key_matches ssl cert key then Exits [Perror (''Private key and certificate don'' @ [CHR 0x27] @ ''t match'')] 1
      else Returns (ctx\<lparr>ctx_min_proto := TLS1_3_VERSION, ctx_session_cache_client := True,
                        ctx_new_session_cb := True, ctx_verify_peer := True,
                        ctx_fail_if_no_peer_cert := True, ctx_verify_depth := 1\<rparr>))"

subsection \<open>Sockets\<close>

definition tls_address :: "(string \<Rightarrow> u32) \<Rightarrow> string \<Rightarrow> int \<Rightarrow> sockaddr_in" where
  "tls_address inet_addr ip port =
     \<lparr>sin_family = AF_INET, sin_port = htons (word_of_int port), sin_addr = inet_addr ip\<rparr>"

text \<open>\<open>setup_tcp\<close> of the server: the listening descriptor.\<close>

definition setup_tcp :: "int \<Rightarrow> (sockaddr_in \<Rightarrow> bool) \<Rightarrow> bool \<Rightarrow> (string \<Rightarrow> u32) \<Rightarrow> string \<Rightarrow> int \<Rightarrow> int outcome" where
  "setup_tcp socket_fd bind_ok listen_ok inet_addr ip port =
     (if socket_fd = - 1 then Exits [Perror ''socket''] 1
      else if \<not> bind_ok (tls_address inet_addr ip port) then Exits [Perror ''Bind''] 1
      else if \<not> listen_ok then Exits [Perror ''listen''] 1
      else Returns socket_fd)"

text \<open>\<open>tcp_tls_connect\<close> of the client: the connected descriptor, set to non-blocking after the handshake.\<close>

record connect_results =
  sock_ret :: int
  connect_ok :: "sockaddr_in \<Rightarrow> bool"
  conn_ssl_new_ok :: bool
  conn_set_fd_ok :: bool
  ssl_connect_ret :: int

definition tcp_tls_connect ::
  "connect_results \<Rightarrow> (string \<Rightarrow> u32) \<Rightarrow> string \<Rightarrow> int \<Rightarrow> (int \<times> mtls_event list) outcome" where
  "tcp_tls_connect res inet_addr ip port =
     (if sock_ret res = - 1 then Exits [Perror ''socket''] 1
      else if \<not> connect_ok res (tls_address inet_addr ip port) then Exits [Perror ''connect''] 1
      else if \<not> conn_ssl_new_ok res then Exits [Perror ''SSL_new''] 1
      else if \<not> conn_set_fd_ok res then Exits [Perror ''SSL_set_fd''] 1
      else if ssl_connect_ret res \<le> 0 then Exits [Err (''Connection failed'' @ [NL])] 1
      else Returns (sock_ret res, [MNonblock (sock_ret res)]))"

subsection \<open>The client's poll loop\<close>

record client_round =
  c_poll_ret :: int
  c_stdin_ready :: bool
  c_sock_ready :: bool
  c_stdin_read :: read_result
  c_ssl_read :: ssl_read_result
  c_new_sessions :: "nat list"     \<comment> \<open>the sessions negotiated while \<open>SSL_read\<close> runs\<close>

text \<open>
  The client has one TLS object; the state of the loop is what it has done: bytes handed to
  \<open>SSL_write\<close> and bytes written to the standard output.
\<close>

datatype client_event = CSslWrite "u8 list" | CWriteOut "u8 list" | CIo io | CErrQueue

text \<open>
  \<open>new_session_cb\<close>, which OpenSSL calls for each session ticket it reads; the text of a session, an object
  of OpenSSL, is a parameter.  Its result 0 tells the library that no reference is kept.
\<close>

definition new_session_cb :: "(nat \<Rightarrow> string) \<Rightarrow> nat \<Rightarrow> client_event list \<times> int" where
  "new_session_cb session_text ses = ([CIo (Out (session_text ses))], 0)"

definition session_events :: "(nat \<Rightarrow> string) \<Rightarrow> client_round \<Rightarrow> client_event list" where
  "session_events session_text rd = concat (map (fst \<circ> new_session_cb session_text) (c_new_sessions rd))"

definition client_monitor :: "(nat \<Rightarrow> string) \<Rightarrow> client_round \<Rightarrow> client_event list \<Rightarrow> client_event list turn" where
  "client_monitor session_text rd lg0 =
     (let lg = lg0 @ session_events session_text rd in
      case c_ssl_read rd of
        SslData buf \<Rightarrow> Goes (lg @ [CWriteOut buf])
      | SslFail SSL_ERROR_ZERO_RETURN \<Rightarrow> Ends (lg @ [CIo (Out (''Server disconnected'' @ [NL]))])
      | SslFail SSL_ERROR_SYSCALL \<Rightarrow> Ends (lg @ [CIo (Out (''Server disconnected'' @ [NL]))])
      | SslFail SSL_ERROR_SSL \<Rightarrow> Ends (lg @ [CIo (Out (''Server disconnected'' @ [NL]))])
      | SslFail SSL_ERROR_WANT_READ \<Rightarrow> Goes lg
      | SslFail SSL_ERROR_WANT_WRITE \<Rightarrow> Goes lg
      | SslFail SSL_ERROR_OTHER \<Rightarrow> Ends (lg @ [CErrQueue]))"

definition read_client :: "read_result \<Rightarrow> u8 list option" where
  "read_client r = (case r of ReadData buf \<Rightarrow> Some buf | _ \<Rightarrow> None)"

definition client_turn :: "(nat \<Rightarrow> string) \<Rightarrow> client_round \<Rightarrow> client_event list \<Rightarrow> client_event list turn" where
  "client_turn session_text rd lg =
     (let r = c_poll_ret rd;
          stdin_step = (if 0 < r \<and> c_stdin_ready rd
            then map_option (\<lambda>buf. lg @ [CSslWrite buf]) (read_client (c_stdin_read rd))
            else Some lg)
      in case stdin_step of
           None \<Rightarrow> Goes lg
         | Some lg1 \<Rightarrow> if 0 < r \<and> c_sock_ready rd then client_monitor session_text rd lg1 else Goes lg1)"

subsection \<open>Mode dispatch\<close>

datatype mode_call =
    ServerCall string int string string string
  | ClientCall string int string string string

definition usage_text :: "io list" where
  "usage_text = [Err (''Usage: ./mtlsapp server|client [IP] [PORT] [CA] [CERT] [KEY]'' @ [NL])]"

definition select_function :: "string list \<Rightarrow> io list + mode_call" where
  "select_function argv =
     (if argv ! 1 = ''server'' then
        Inr (ServerCall (argv ! 2) (atoi (argv ! 3)) (argv ! 4) (argv ! 5) (argv ! 6))
      else if argv ! 1 = ''client'' then
        Inr (ClientCall (argv ! 2) (atoi (argv ! 3)) (argv ! 4) (argv ! 5) (argv ! 6))
      else Inl usage_text)"

text \<open>
  \<open>main\<close>: the call it makes, or the text it prints and its exit status.  The value of
  \<open>select_function\<close> is dropped, so an unknown mode ends with the status 0 that \<open>main\<close> returns when it
  runs off its end.
\<close>

definition mtls_main :: "string list \<Rightarrow> (io list \<times> int) + mode_call" where
  "mtls_main argv =
     (if length argv \<noteq> 7 then Inl (usage_text, 1)
      else (case select_function argv of Inl es \<Rightarrow> Inl (es, 0) | Inr c \<Rightarrow> Inr c))"

text \<open>\<open>server()\<close> and \<open>client()\<close> up to their loops: context first, then the sockets.\<close>

definition server_start ::
  "openssl \<Rightarrow> int \<Rightarrow> (sockaddr_in \<Rightarrow> bool) \<Rightarrow> bool \<Rightarrow> (string \<Rightarrow> u32) \<Rightarrow> pollfd list \<Rightarrow>
     string \<Rightarrow> int \<Rightarrow> string \<Rightarrow> string \<Rightarrow> string \<Rightarrow> (ssl_ctx \<times> mtls_server) outcome" where
  "server_start ssl socket_fd bind_ok listen_ok inet_addr garbage ip port ca cert key =
     obind (server_setup_context ssl ca cert key) (\<lambda>ctx.
     obind (setup_tcp socket_fd bind_ok listen_ok inet_addr ip port) (\<lambda>fd.
     Returns (ctx, mtls_init fd garbage)))"

definition client_start ::
  "openssl \<Rightarrow> connect_results \<Rightarrow> (string \<Rightarrow> u32) \<Rightarrow> string \<Rightarrow> int \<Rightarrow> string \<Rightarrow> string \<Rightarrow> string \<Rightarrow>
     (ssl_ctx \<times> int) outcome" where
  "client_start ssl res inet_addr ip port ca cert key =
     obind (client_setup_context ssl ca cert key) (\<lambda>ctx.
     obind (tcp_tls_connect res inet_addr ip port) (\<lambda>(fd, _). Returns (ctx, fd)))"

subsection \<open>Lemmas\<close>

definition mutual_tls :: "openssl \<Rightarrow> string \<Rightarrow> string \<Rightarrow> string \<Rightarrow> ssl_ctx \<Rightarrow> bool" where
  "mutual_tls ssl ca cert key ctx \<longleftrightarrow>
     ctx_verify_peer ctx \<and> ctx_fail_if_no_peer_cert ctx \<and> ctx_verify_depth ctx = 1 \<and>
     ctx_min_proto ctx = TLS1_3_VERSION \<and> ctx_ca ctx = Some ca \<and>
     ctx_cert ctx = Some cert \<and> ctx_key ctx = Some key \<and> key_matches ssl cert key"

lemma server_context_mutual: "server_setup_context ssl ca cert key = Returns ctx \<Longrightarrow> mutual_tls ssl ca cert key ctx"
  by (auto simp: server_setup_context_def mutual_tls_def new_ctx_def Let_def split: if_splits)

lemma client_context_mutual: "client_setup_context ssl ca cert key = Returns ctx \<Longrightarrow> mutual_tls ssl ca cert key ctx"
  by (auto simp: client_setup_context_def mutual_tls_def new_ctx_def Let_def split: if_splits)

lemma setup_context_fails:
  assumes "\<not> (ctx_new_ok ssl \<and> load_verify_locations_ok ssl ca \<and> use_certificate_ok ssl cert \<and>
    use_private_key_ok ssl key \<and> key_matches ssl cert key)"
  shows "(\<exists>es. server_setup_context ssl ca cert key = Exits es 1) \<and>
    (\<exists>es. client_setup_context ssl ca cert key = Exits es 1)"
  using assms by (auto simp: server_setup_context_def client_setup_context_def Let_def)

lemma client_turn_stdin_eof:
  "0 < c_poll_ret rd \<Longrightarrow> c_stdin_ready rd \<Longrightarrow> c_stdin_read rd = ReadEof \<Longrightarrow> client_turn session_text rd lg = Goes lg"
  by (simp add: client_turn_def read_client_def)

lemma run_client_stdin_eof:
  "\<forall>rd \<in> set rds. 0 < c_poll_ret rd \<and> c_stdin_ready rd \<and> c_stdin_read rd = ReadEof \<Longrightarrow>
     run_turns (client_turn session_text) rds lg = Goes lg"
  by (induction rds) (auto simp: client_turn_stdin_eof)

text \<open>What the client relays when nothing ends the connection.\<close>

definition relays :: "(nat \<Rightarrow> string) \<Rightarrow> client_round \<Rightarrow> client_event list" where
  "relays session_text rd =
     (if 0 < c_poll_ret rd then
        (if c_stdin_ready rd then (case c_stdin_read rd of ReadData buf \<Rightarrow> [CSslWrite buf] | _ \<Rightarrow> []) else []) @
        (if c_sock_ready rd \<and> (c_stdin_ready rd \<longrightarrow> (\<exists>buf. c_stdin_read rd = ReadData buf))
         then session_events session_text rd @ (case c_ssl_read rd of SslData buf \<Rightarrow> [CWriteOut buf] | _ \<Rightarrow> []) else [])
      else [])"

lemma client_turn_relays: "client_turn session_text rd lg = Goes lg' \<Longrightarrow> lg' = lg @ relays session_text rd"
  by (auto simp: client_turn_def read_client_def relays_def client_monitor_def Let_def
      split: if_splits option.splits read_result.splits ssl_read_result.splits ssl_error.splits)

lemma run_client_relays: "run_turns (client_turn session_text) rds lg = Goes lg' \<Longrightarrow> lg' = lg @ concat (map (relays session_text) rds)"
proof (induction rds arbitrary: lg)
  case (Cons rd rds)
  then obtain lg1 where "client_turn session_text rd lg = Goes lg1" "run_turns (client_turn session_text) rds lg1 = Goes lg'"
    by (auto split: turn.splits)
  then show ?case using client_turn_relays [of session_text rd lg lg1] Cons.IH [of lg1] by simp
qed simp

subsection \<open>Properties\<close>


definition demo_openssl :: openssl where
  "demo_openssl =
     \<lparr>ctx_new_ok = True, load_verify_locations_ok = (\<lambda>f. f = ''ca.pem''), use_certificate_ok = (\<lambda>f. f = ''cert.pem''),
      use_private_key_ok = (\<lambda>f. f = ''key.pem''), key_matches = (\<lambda>_ _. True)\<rparr>"




end
