(* ===== verification/Checksum.thy ===== *)
theory Checksum
  imports C_Bytes
begin

text \<open>
  \<open>checksum\<close> of \<^verbatim>\<open>src/projects/networking/port-scanner/main.c\<close>: it adds the 16-bit words of a buffer as the
  little-endian host reads them in a 32-bit accumulator, folds the carries twice and complements.
  The reference is the definition of RFC 1071: the complement of the one's complement sum, with
  end-around carry at every addition, of the big-endian words.
\<close>

fun sum_words :: "u8 list \<Rightarrow> u32 \<Rightarrow> u32" where
  "sum_words (a # b # bs) acc = sum_words bs (acc + ucast (rd16 [a, b]))"
| "sum_words [a] acc = acc + ucast a"
| "sum_words [] acc = acc"

definition fold_sum :: "u32 \<Rightarrow> u16" where
  "fold_sum s =
     (let s1 = drop_bit 16 s + (s AND 0xffff);
          s2 = s1 + drop_bit 16 s1
      in ucast (NOT s2))"

definition checksum :: "u8 list \<Rightarrow> u16" where
  "checksum data = fold_sum (sum_words data 0)"

subsection \<open>The reference\<close>

definition oc_add :: "nat \<Rightarrow> nat \<Rightarrow> nat" where
  "oc_add a b = (if 65536 \<le> a + b then a + b - 65535 else a + b)"

fun be_words :: "u8 list \<Rightarrow> nat list" where
  "be_words (a # b # bs) = (256 * unat a + unat b) # be_words bs"
| "be_words [a] = [256 * unat a]"
| "be_words [] = []"

definition rfc1071 :: "u8 list \<Rightarrow> nat" where
  "rfc1071 bs = 65535 - foldl oc_add 0 (be_words bs)"

subsection \<open>Sums modulo 65535\<close>

text \<open>
  A one's complement sum is determined by the plain sum: it is its representative modulo 65535
  between 0 and 65535 that is 0 only when the plain sum is.
\<close>

definition oc_rep :: "nat \<Rightarrow> nat \<Rightarrow> bool" where
  "oc_rep r s \<longleftrightarrow> r \<le> 65535 \<and> r mod 65535 = s mod 65535 \<and> (r = 0 \<longleftrightarrow> s = 0)"

lemma oc_rep_unique: "oc_rep r s \<Longrightarrow> oc_rep r' s \<Longrightarrow> r = r'"
  unfolding oc_rep_def by (cases "r = 65535"; cases "r' = 65535") auto

lemma oc_rep_add: "oc_rep r s \<Longrightarrow> w \<le> 65535 \<Longrightarrow> oc_rep (oc_add r w) (s + w)"
proof -
  assume r: "oc_rep r s" and w: "w \<le> 65535"
  then have "oc_add r w \<le> 65535" "oc_add r w = 0 \<longleftrightarrow> s + w = 0" by (auto simp: oc_rep_def oc_add_def)
  moreover have "oc_add r w mod 65535 = (r + w) mod 65535"
    using le_mod_geq [of 65535 "r + w"] by (auto simp: oc_add_def)
  moreover have "(r + w) mod 65535 = (s + w) mod 65535"
    using r by (intro mod_add_cong) (simp_all add: oc_rep_def)
  ultimately show ?thesis by (simp add: oc_rep_def)
qed

lemma oc_rep_foldl: "oc_rep r s \<Longrightarrow> \<forall>w \<in> set ws. w \<le> 65535 \<Longrightarrow> oc_rep (foldl oc_add r ws) (s + sum_list ws)"
proof (induction ws arbitrary: r s)
  case (Cons w ws)
  then show ?case using Cons.IH [OF oc_rep_add [of r s w]] by (simp add: add.assoc)
qed simp

lemma byte_pair_le [simp]:
  "256 * unat (a :: u8) + unat (b :: u8) \<le> 65535" "unat (a :: u8) + 256 * unat (b :: u8) \<le> 65535"
  "256 * unat a \<le> 65535" "unat a \<le> 65535"
  using unat_u8_less [of a] unat_u8_less [of b] by linarith+

lemma be_words_le: "w \<in> set (be_words bs) \<Longrightarrow> w \<le> 65535"
  by (induction bs rule: be_words.induct) auto

lemma rfc_rep: "oc_rep (foldl oc_add 0 (be_words bs)) (sum_list (be_words bs))"
  using oc_rep_foldl [of 0 0 "be_words bs"] be_words_le by (simp add: oc_rep_def)

subsection \<open>What the code adds\<close>

fun le_words :: "u8 list \<Rightarrow> nat list" where
  "le_words (a # b # bs) = (unat a + 256 * unat b) # le_words bs"
| "le_words [a] = [unat a]"
| "le_words [] = []"

lemma unat_rd16_pair: "unat (rd16 [a, b]) = unat a + 256 * unat b"
proof -
  have "unat a + 256 * unat b < 65536" using byte_pair_le(2) [of a b] by linarith
  then have "unat (of_nat (unat a + 256 * unat b) :: u16) = unat a + 256 * unat b" by (subst unat_of_nat) simp
  then show ?thesis by (simp add: rd16_def)
qed

lemma sum_le_words_bound: "sum_list (le_words bs) \<le> 65535 * ((length bs + 1) div 2)"
proof (induction bs rule: le_words.induct)
  case (1 a b bs)
  with byte_pair_le(2) [of a b] show ?case by (simp del: byte_pair_le)
qed simp_all

lemma sum_words_value: "sum_words bs s = s + of_nat (sum_list (le_words bs))"
proof (induction bs s rule: sum_words.induct)
  case (1 a b bs acc)
  have "(ucast (rd16 [a, b]) :: u32) = of_nat (unat a + 256 * unat b)"
    unfolding unat_rd16_pair [symmetric] by simp
  with 1 show ?case by simp
qed simp_all

lemma unat_sum_words:
  "length bs \<le> 131072 \<Longrightarrow> unat (sum_words bs 0) = sum_list (le_words bs)"
proof -
  assume "length bs \<le> 131072"
  then have "(length bs + 1) div 2 \<le> 65536" by simp
  then have "sum_list (le_words bs) \<le> 65535 * 65536" using sum_le_words_bound [of bs] by linarith
  then show ?thesis by (simp add: sum_words_value unat_of_nat)
qed

subsection \<open>Words\<close>

lemma unat_u16_less: "unat (w :: u16) < 65536"
  using unsigned_less [of w, where ?'a = nat] by simp

lemma unat_not_u16: "unat (NOT w :: u16) = 65535 - unat w"
proof -
  have "NOT w = 65535 - w" by (simp add: not_eq_complement)
  moreover have "w \<le> 65535" using unat_u16_less [of w] by (simp add: word_le_nat_alt)
  ultimately show ?thesis by (simp add: unat_sub)
qed

lemma ucast_not_u32: "ucast (NOT s :: u32) = (NOT (ucast s) :: u16)"
  by (rule bit_word_eqI) (simp add: bit_unsigned_iff bit_not_iff)

lemma unat_low_half: "unat (s AND 0xffff :: u32) = unat s mod 65536"
proof -
  have "s AND 0xffff = take_bit 16 s" by (simp add: take_bit_eq_mask mask_eq_exp_minus_1)
  then show ?thesis by (simp only: unsigned_take_bit_eq) (simp add: take_bit_eq_mod)
qed

lemma unat_high_half: "unat (drop_bit 16 s :: u32) = unat s div 65536"
  by (simp only: unat_drop_bit_eq) (simp add: drop_bit_eq_div)

lemma unat_ucast_u16: "unat (ucast (s :: u32) :: u16) = unat s mod 65536"
  by (simp add: unsigned_ucast_eq take_bit_eq_mod)

text \<open>Two folds are enough: they give the representative of any 32-bit sum.\<close>

lemma fold_nat_rep:
  assumes "n < 4294967296"
  shows "oc_rep ((n div 65536 + n mod 65536 + (n div 65536 + n mod 65536) div 65536) mod 65536) n"
proof -
  define m where "m = n div 65536 + n mod 65536"
  have n: "n = 65536 * (n div 65536) + n mod 65536" by simp
  then have "n = m + 65535 * (n div 65536)" unfolding m_def by linarith
  then have mm: "m mod 65535 = n mod 65535" by (metis mod_mult_self2)
  have "n div 65536 < 65536" using assms by (simp add: less_mult_imp_div_less)
  then have m: "m < 131071" unfolding m_def using mod_less_divisor [of 65536 n] by linarith
  have z: "m = 0 \<longleftrightarrow> n = 0" using n by (auto simp: m_def)
  have "(m + m div 65536) mod 65536 = (if 65536 \<le> m then m - 65535 else m)"
  proof (cases "65536 \<le> m")
    case True
    with m have "m div 65536 = 1" by (simp add: div_nat_eqI)
    then have "(m + m div 65536) mod 65536 = (m - 65535 + 65536) mod 65536" using True by simp
    also have "\<dots> = m - 65535" using m True by (simp del: Nat.add_diff_assoc2)
    finally show ?thesis using True by simp
  qed simp
  moreover have "(m - 65535) mod 65535 = m mod 65535" if "65536 \<le> m"
    using that le_mod_geq [of 65535 m] by simp
  ultimately show ?thesis using mm z m unfolding m_def [symmetric] oc_rep_def by auto
qed

lemma fold_sum_rep: "oc_rep (65535 - unat (fold_sum s)) (unat s)"
proof -
  define s1 where "s1 = drop_bit 16 s + (s AND 0xffff)"
  define s2 where "s2 = s1 + drop_bit 16 s1"
  have n: "unat s < 4294967296" using unsigned_less [of s, where ?'a = nat] by simp
  have d: "unat s div 65536 < 65536" using n by (simp add: less_mult_imp_div_less)
  have m: "unat s mod 65536 < 65536" by simp
  have s1: "unat s1 = unat s div 65536 + unat s mod 65536"
    unfolding s1_def using d m by (simp add: unat_word_ariths unat_high_half unat_low_half)
  then have "unat s1 < 131072" using d m by linarith
  then have s2: "unat s2 = unat s1 + unat s1 div 65536"
    unfolding s2_def by (simp add: unat_word_ariths unat_high_half)
  have "fold_sum s = ucast (NOT s2)" by (simp add: fold_sum_def Let_def s1_def s2_def)
  then have "65535 - unat (fold_sum s) = unat s2 mod 65536"
    by (simp add: ucast_not_u32 unat_not_u16 unat_ucast_u16)
  then show ?thesis using fold_nat_rep [OF n] by (simp add: s1 s2)
qed

subsection \<open>Byte order\<close>

text \<open>
  Swapping the bytes of the words multiplies the sum by 256 modulo 65535, so summing the words as the
  little-endian host reads them and storing the result in host order leaves the same bytes in memory
  as the big-endian definition.
\<close>

lemma le16_pair: "le16 w = [of_nat (unat w), of_nat (unat w div 256)]"
  by (simp add: le16_def numeral_2_eq_2)

lemma unat_htons: "unat (htons w) = 256 * (unat w mod 256) + unat w div 256"
proof -
  have "unat w div 256 < 256" using unat_u16_less [of w] by (simp add: less_mult_imp_div_less)
  then have "unat (of_nat (unat w div 256) :: u8) = unat w div 256" by (simp add: unat_of_nat)
  then show ?thesis by (simp add: htons_def le16_pair unat_rd16_pair unat_of_nat del: of_nat_unat)
qed

lemma swap_mod: "(256 * (n mod 256) + n div 256) mod 65535 = 256 * n mod (65535 :: nat)"
proof -
  have "n = 256 * (n div 256) + n mod 256" by simp
  then have "256 * n = 256 * (n mod 256) + n div 256 + 65535 * (n div 256)" by linarith
  then show ?thesis by (metis mod_mult_self2)
qed

lemma words_swapped:
  "sum_list (le_words bs) mod 65535 = 256 * sum_list (be_words bs) mod 65535"
  "sum_list (le_words bs) = 0 \<longleftrightarrow> sum_list (be_words bs) = 0"
proof (induction bs rule: be_words.induct)
  case (1 a b bs)
  have "256 * (256 * unat a + unat b) = unat a + 256 * unat b + 65535 * unat a" by simp
  then have "(unat a + 256 * unat b) mod 65535 = 256 * (256 * unat a + unat b) mod 65535"
    by (metis mod_mult_self2)
  then show "sum_list (le_words (a # b # bs)) mod 65535 = 256 * sum_list (be_words (a # b # bs)) mod 65535"
    using mod_add_cong [OF _ 1(1)] by (simp only: le_words.simps be_words.simps sum_list.Cons distrib_left)
  show "sum_list (le_words (a # b # bs)) = 0 \<longleftrightarrow> sum_list (be_words (a # b # bs)) = 0"
    using 1(2) by auto
next
  case (2 a)
  have "256 * (256 * unat a) = unat a + 65535 * unat a" by simp
  then show "sum_list (le_words [a]) mod 65535 = 256 * sum_list (be_words [a]) mod 65535"
    by (metis add_0_right be_words.simps(2) le_words.simps(2) mod_mult_self2 sum_list.Cons sum_list.Nil)
  show "sum_list (le_words [a]) = 0 \<longleftrightarrow> sum_list (be_words [a]) = 0" by simp
qed simp_all

lemma checksum_rep:
  "length bs \<le> 131072 \<Longrightarrow> oc_rep (65535 - unat (checksum bs)) (sum_list (le_words bs))"
  using fold_sum_rep [of "sum_words bs 0"] by (simp add: checksum_def unat_sum_words)

lemma oc_rep_swap:
  assumes "oc_rep r (sum_list (be_words bs))"
  shows "oc_rep (256 * (r mod 256) + r div 256) (sum_list (le_words bs))"
proof -
  have r: "r \<le> 65535" "r mod 65535 = sum_list (be_words bs) mod 65535" "r = 0 \<longleftrightarrow> sum_list (be_words bs) = 0"
    using assms by (auto simp: oc_rep_def)
  have "r div 256 \<le> 255" using r(1) by (simp add: div_le_mono [of r 65535 256, simplified])
  moreover have "r mod 256 \<le> 255" using mod_less_divisor [of 256 r] by linarith
  ultimately have "256 * (r mod 256) + r div 256 \<le> 65535" by linarith
  moreover have "(256 * (r mod 256) + r div 256) mod 65535 = sum_list (le_words bs) mod 65535"
    unfolding swap_mod words_swapped(1) using r(2) by (metis mod_mult_right_eq)
  moreover have "256 * (r mod 256) + r div 256 = 0 \<longleftrightarrow> r = 0" by auto
  ultimately show ?thesis using r(3) words_swapped(2) [of bs] by (simp add: oc_rep_def)
qed

lemma swap_complement:
  assumes "r \<le> (65535 :: nat)"
  shows "256 * ((65535 - r) mod 256) + (65535 - r) div 256 = 65535 - (256 * (r mod 256) + r div 256)"
proof -
  define h l where "h = r div 256" and "l = r mod 256"
  have hl: "r = 256 * h + l" "l \<le> 255" using mod_less_divisor [of 256 r] by (auto simp: h_def l_def)
  with assms have "h \<le> 255" by linarith
  then have e: "65535 - r = 256 * (255 - h) + (255 - l)" using hl by (simp add: diff_mult_distrib2)
  have "(65535 - r) div 256 = 255 - h" "(65535 - r) mod 256 = 255 - l" unfolding e by simp_all
  then show ?thesis using \<open>h \<le> 255\<close> hl(2) by (simp add: diff_mult_distrib2 flip: h_def l_def)
qed

lemma checksum_is_htons_rfc1071:
  assumes "length bs \<le> 131072"
  shows "checksum bs = htons (of_nat (rfc1071 bs))"
proof -
  let ?r = "foldl oc_add 0 (be_words bs)"
  have r: "?r \<le> 65535" using rfc_rep [of bs] by (simp add: oc_rep_def)
  have "unat (of_nat (rfc1071 bs) :: u16) = 65535 - ?r" by (simp add: rfc1071_def unat_of_nat)
  then have "unat (htons (of_nat (rfc1071 bs))) = 256 * ((65535 - ?r) mod 256) + (65535 - ?r) div 256"
    by (simp only: unat_htons)
  also have "\<dots> = 65535 - (256 * (?r mod 256) + ?r div 256)"
    using r by (rule swap_complement)
  also have "\<dots> = unat (checksum bs)"
    using oc_rep_unique [OF oc_rep_swap [OF rfc_rep] checksum_rep [OF assms]] unat_u16_less [of "checksum bs"]
    by linarith
  finally show ?thesis by (metis unsigned_word_eqI)
qed

text \<open>The receiver's test: with the checksum in place the sum comes out as all ones.\<close>

lemma le_words_append: "even (length xs) \<Longrightarrow> le_words (xs @ ys) = le_words xs @ le_words ys"
  by (induction xs rule: le_words.induct) auto

lemma checksum_verifies_at:
  assumes "even (length pre)" and "length pre + 2 + length post \<le> 131072"
    and c: "c = checksum (pre @ [0, 0] @ post)"
  shows "checksum (pre @ le16 c @ post) = 0"
proof -
  let ?S = "sum_list (le_words (pre @ [0, 0] @ post))"
  let ?r = "65535 - unat c"
  have r: "oc_rep ?r ?S" using checksum_rep [of "pre @ [0, 0] @ post"] assms by simp
  have "unat c div 256 < 256" using unat_u16_less [of c] by (simp add: less_mult_imp_div_less)
  then have "sum_list (le_words (le16 c @ post)) = unat c + sum_list (le_words post)"
    by (simp add: le16_pair unat_of_nat del: of_nat_unat)
  then have sum: "sum_list (le_words (pre @ le16 c @ post)) = ?S + unat c"
    using assms(1) by (simp add: le_words_append)
  have c': "unat c = 65535 - ?r" "?r \<le> 65535" using unat_u16_less [of c] by simp_all
  have "oc_rep 65535 (?S + unat c)"
  proof -
    have "(?S + unat c) mod 65535 = (?r + unat c) mod 65535"
      using r by (intro mod_add_cong) (simp_all add: oc_rep_def)
    then show ?thesis using r c' by (auto simp: oc_rep_def)
  qed
  moreover have "oc_rep (65535 - unat (checksum (pre @ le16 c @ post))) (?S + unat c)"
    using checksum_rep [of "pre @ le16 c @ post"] assms(2) sum by simp
  ultimately have "65535 - unat (checksum (pre @ le16 c @ post)) = 65535" using oc_rep_unique by blast
  then have "unat (checksum (pre @ le16 c @ post)) = 0" by simp
  then show ?thesis by (simp add: unat_eq_zero)
qed

subsection \<open>Properties\<close>

text \<open>
  (C9) The checksum routine is the Internet checksum: for every buffer of up to 131072 bytes (so that
  the 32-bit accumulator cannot overflow), the two bytes it stores are the big-endian bytes of the
  RFC 1071 checksum of the big-endian words, odd lengths included; two carry folds are enough.
\<close>

theorem checksum_rfc1071:
  "length bs \<le> 131072 \<Longrightarrow> le16 (checksum bs) = rev (le16 (of_nat (rfc1071 bs)))"
  by (simp add: checksum_is_htons_rfc1071 le16_htons)

theorem checksum_rfc1071_witness:
  "length [0x45, 0x00, 0xff :: u8] \<le> 131072 \<and> le16 (checksum [0x45, 0x00, 0xff]) = [0xbb, 0xfe]"
proof -
  have "rfc1071 [0x45, 0x00, 0xff] = 0xbbfe" by (simp add: rfc1071_def oc_add_def)
  then show ?thesis using checksum_rfc1071 [of "[0x45, 0x00, 0xff]"] by (simp add: le16_pair)
qed

end
