(* ===== verification/Portscan.thy ===== *)
theory Portscan
  imports Checksum
begin

text \<open>
  \<^verbatim>\<open>src/projects/networking/port-scanner/main.c\<close>: the packets \<open>syn_scan\<close> builds, the listener thread's
  filter \<open>process\<close>, and the scan loop of \<open>main\<close>.  The headers are the structures of \<open>netinet\<close> with
  their bytes in memory; each pair of bit-fields is the byte that holds it.  The answers of the
  system calls, \<open>rand\<close> and \<open>inet_addr\<close> are parameters.
\<close>

subsection \<open>Headers\<close>

record iphdr =
  ip_vihl :: u8           \<comment> \<open>\<open>ihl\<close> in the low, \<open>version\<close> in the high four bits\<close>
  ip_tos :: u8
  ip_tot_len :: u16
  ip_id :: u16
  ip_frag_off :: u16
  ip_ttl :: u8
  ip_protocol :: u8
  ip_check :: u16
  ip_saddr :: u32
  ip_daddr :: u32

record tcphdr =
  th_source :: u16
  th_dest :: u16
  th_seq :: u32
  th_ack_seq :: u32
  th_off :: u8            \<comment> \<open>\<open>res1\<close> in the low, \<open>doff\<close> in the high four bits\<close>
  th_flags :: u8          \<comment> \<open>\<open>fin\<close>, \<open>syn\<close>, \<open>rst\<close>, \<open>psh\<close>, \<open>ack\<close>, \<open>urg\<close> from bit 0 up\<close>
  th_window :: u16
  th_check :: u16
  th_urg_ptr :: u16

definition ihl :: "iphdr \<Rightarrow> u8" where "ihl h = ip_vihl h AND 15"
definition th_syn :: "tcphdr \<Rightarrow> bool" where "th_syn h \<longleftrightarrow> bit (th_flags h) 1"
definition th_ack :: "tcphdr \<Rightarrow> bool" where "th_ack h \<longleftrightarrow> bit (th_flags h) 4"

definition enc_iph :: "iphdr \<Rightarrow> u8 list" where
  "enc_iph h =
     [ip_vihl h, ip_tos h] @ le16 (ip_tot_len h) @ le16 (ip_id h) @ le16 (ip_frag_off h) @
     [ip_ttl h, ip_protocol h] @ le16 (ip_check h) @ le32 (ip_saddr h) @ le32 (ip_daddr h)"

definition dec_iph :: "u8 list \<Rightarrow> iphdr" where
  "dec_iph bs =
     \<lparr>ip_vihl = bs ! 0, ip_tos = bs ! 1, ip_tot_len = rd16 (drop 2 bs), ip_id = rd16 (drop 4 bs),
      ip_frag_off = rd16 (drop 6 bs), ip_ttl = bs ! 8, ip_protocol = bs ! 9, ip_check = rd16 (drop 10 bs),
      ip_saddr = rd32 (drop 12 bs), ip_daddr = rd32 (drop 16 bs)\<rparr>"

definition enc_tcph :: "tcphdr \<Rightarrow> u8 list" where
  "enc_tcph h =
     le16 (th_source h) @ le16 (th_dest h) @ le32 (th_seq h) @ le32 (th_ack_seq h) @
     [th_off h, th_flags h] @ le16 (th_window h) @ le16 (th_check h) @ le16 (th_urg_ptr h)"

definition dec_tcph :: "u8 list \<Rightarrow> tcphdr" where
  "dec_tcph bs =
     \<lparr>th_source = rd16 bs, th_dest = rd16 (drop 2 bs), th_seq = rd32 (drop 4 bs), th_ack_seq = rd32 (drop 8 bs),
      th_off = bs ! 12, th_flags = bs ! 13, th_window = rd16 (drop 14 bs), th_check = rd16 (drop 16 bs),
      th_urg_ptr = rd16 (drop 18 bs)\<rparr>"

lemma length_enc_iph [simp]: "length (enc_iph h) = 20"
  and length_enc_tcph [simp]: "length (enc_tcph t) = 20"
  by (simp_all add: enc_iph_def enc_tcph_def)

interpretation iph: fixed_codec enc_iph dec_iph 20
  by unfold_locales (simp_all add: enc_iph_def dec_iph_def nth_append)

interpretation tcph: fixed_codec enc_tcph dec_tcph 20
  by unfold_locales (simp_all add: enc_tcph_def dec_tcph_def nth_append)

subsection \<open>Building a SYN\<close>

definition IP_SIZE :: nat where "IP_SIZE = 20"
definition SOURCE_PORT :: int where "SOURCE_PORT = 45677"
definition WINDOW_SIZE :: u16 where "WINDOW_SIZE = 65535"
definition IPPROTO_TCP :: u8 where "IPPROTO_TCP = 6"

record scan_config =
  src_ip :: string
  dst_ip :: string
  src_port :: int
  port_start :: int
  port_end :: int
  dest_addr :: u32

record pseudo_header =
  ps_source :: u32
  ps_dest :: u32
  ps_zero :: u8
  ps_protocol :: u8
  ps_tcp_len :: u16

definition enc_pseudo :: "pseudo_header \<Rightarrow> u8 list" where
  "enc_pseudo p = le32 (ps_source p) @ le32 (ps_dest p) @ [ps_zero p, ps_protocol p] @ le16 (ps_tcp_len p)"

definition tcp_pseudo :: "iphdr \<Rightarrow> pseudo_header" where
  "tcp_pseudo iph =
     \<lparr>ps_source = ip_saddr iph, ps_dest = ip_daddr iph, ps_zero = 0, ps_protocol = IPPROTO_TCP,
      ps_tcp_len = htons 20\<rparr>"

definition tcp_checksum :: "tcphdr \<Rightarrow> iphdr \<Rightarrow> u16" where
  "tcp_checksum tcph iph = checksum (enc_pseudo (tcp_pseudo iph) @ enc_tcph tcph)"

definition zero_iph :: iphdr where "zero_iph = dec_iph (replicate 20 0)"
definition zero_tcph :: tcphdr where "zero_tcph = dec_tcph (replicate 20 0)"

definition build_iph :: "(string \<Rightarrow> u32) \<Rightarrow> int \<Rightarrow> scan_config \<Rightarrow> iphdr \<Rightarrow> iphdr" where
  "build_iph inet_addr rand config iph =
     iph\<lparr>ip_vihl := push_bit 4 4 OR 5, ip_tos := 0, ip_tot_len := 0, ip_id := htons (word_of_int rand),
         ip_frag_off := 0, ip_ttl := 64, ip_protocol := IPPROTO_TCP, ip_check := 0,
         ip_saddr := inet_addr (src_ip config), ip_daddr := dest_addr config\<rparr>"

definition build_tcph :: "int \<Rightarrow> scan_config \<Rightarrow> int \<Rightarrow> iphdr \<Rightarrow> tcphdr \<Rightarrow> tcphdr" where
  "build_tcph rand config port iph tcph =
     (let t = tcph\<lparr>th_source := htons (word_of_int (src_port config)), th_dest := htons (word_of_int port),
                   th_seq := htonl (word_of_int rand), th_ack_seq := 0,
                   th_off := (th_off tcph AND 15) OR push_bit 4 5, th_flags := th_flags tcph OR 2,
                   th_window := htons WINDOW_SIZE, th_check := 0, th_urg_ptr := 0\<rparr>
      in t\<lparr>th_check := tcp_checksum t iph\<rparr>)"

text \<open>What one call of \<open>syn_scan\<close> gets from the system: two values of \<open>rand\<close> and the three calls.\<close>

record syn_sys =
  raw_socket_ok :: bool
  hdrincl_ok :: bool
  sendto_ok :: bool
  rand_id :: int
  rand_seq :: int

datatype scan_event =
    ScanIo io
  | SendTo "u8 list" u16 u32     \<comment> \<open>packet, \<open>sin_port\<close> and \<open>sin_addr\<close> of the destination\<close>

definition syn_packet :: "(string \<Rightarrow> u32) \<Rightarrow> syn_sys \<Rightarrow> scan_config \<Rightarrow> int \<Rightarrow> u8 list" where
  "syn_packet inet_addr sys config port =
     (let iph = build_iph inet_addr (rand_id sys) config zero_iph;
          tcph = build_tcph (rand_seq sys) config port iph zero_tcph
      in enc_iph iph @ enc_tcph tcph)"

definition syn_scan :: "(string \<Rightarrow> u32) \<Rightarrow> syn_sys \<Rightarrow> scan_config \<Rightarrow> int \<Rightarrow> scan_event list \<times> int" where
  "syn_scan inet_addr sys config port =
     (if \<not> raw_socket_ok sys then ([ScanIo (Perror ''socket'')], 1)
      else if \<not> hdrincl_ok sys then ([ScanIo (Perror ''setsockopt'')], 1)
      else ([SendTo (syn_packet inet_addr sys config port) (htons (word_of_int port)) (dest_addr config)],
            if sendto_ok sys then 0 else 1))"

subsection \<open>The listener\<close>

definition SIZE :: nat where "SIZE = 4096"

definition open_line :: "int \<Rightarrow> string" where
  "open_line p = ''Port '' @ show_int p @ '' open (syn-ack received)'' @ [NL]"

text \<open>
  \<open>process\<close> reads the headers from the whole receive buffer; \<open>len\<close> is only compared with 40.
\<close>

definition process :: "u8 list \<Rightarrow> int \<Rightarrow> scan_config \<Rightarrow> io list" where
  "process buffer len config =
     (if len < 40 then []
      else let iph = dec_iph buffer in
      if ip_saddr iph \<noteq> dest_addr config then []
      else let iph_len = unat (ihl iph) * 4; tcph = dec_tcph (drop iph_len buffer) in
      if int (unat (ntohs (th_dest tcph))) \<noteq> src_port config then []
      else let src_port = int (unat (ntohs (th_source tcph))) in
      if src_port < port_start config \<or> src_port > port_end config then []
      else if th_syn tcph \<and> th_ack tcph then [Out (open_line src_port)] else [])"

datatype recv_result = RecvData "u8 list" | RecvIntr | RecvFail

text \<open>\<open>read\<close> puts at most \<open>SIZE\<close> bytes at the front of the buffer and leaves the rest as it is.\<close>

definition read_into :: "u8 list \<Rightarrow> u8 list \<Rightarrow> u8 list \<times> int" where
  "read_into d buffer = (take SIZE d @ drop (length (take SIZE d)) buffer, int (length (take SIZE d)))"

fun listen_loop :: "scan_config \<Rightarrow> u8 list \<Rightarrow> recv_result list \<Rightarrow> io list" where
  "listen_loop config buffer [] = []"
| "listen_loop config buffer (RecvIntr # rs) = listen_loop config buffer rs"
| "listen_loop config buffer (RecvFail # rs) = [Perror ''read'']"
| "listen_loop config buffer (RecvData d # rs) =
     (case read_into d buffer of (buffer', len) \<Rightarrow>
        process buffer' len config @ listen_loop config buffer' rs)"

definition listen_synacks :: "bool \<Rightarrow> scan_config \<Rightarrow> u8 list \<Rightarrow> recv_result list \<Rightarrow> io list" where
  "listen_synacks socket_ok config buffer rs =
     (if socket_ok then listen_loop config buffer rs else [Perror ''socket''])"

subsection \<open>Scanning\<close>

definition inet_ntoa :: "u32 \<Rightarrow> string" where
  "inet_ntoa a =
     (let q = map (\<lambda>b. show_nat (unat b)) (le32 a)
      in q ! 0 @ ''.'' @ q ! 1 @ ''.'' @ q ! 2 @ ''.'' @ q ! 3)"

definition local_ipget :: "bool \<Rightarrow> bool \<Rightarrow> u32 option \<Rightarrow> io list + string" where
  "local_ipget socket_ok connect_ok sockname =
     (if \<not> socket_ok then Inl [Perror ''socket'']
      else if \<not> connect_ok then Inl [Perror ''connect'']
      else case sockname of
        None \<Rightarrow> Inl [Perror ''getsockname'']
      | Some a \<Rightarrow> Inr (cstr (strncpy (inet_ntoa a) 19)))"

definition scan_port :: "(string \<Rightarrow> u32) \<Rightarrow> (int \<Rightarrow> syn_sys) \<Rightarrow> scan_config \<Rightarrow> int \<Rightarrow> scan_event list" where
  "scan_port inet_addr sys config i =
     (case syn_scan inet_addr (sys i) config i of (es, r) \<Rightarrow>
        es @ (if r \<noteq> 0 then [ScanIo (Err (''Failed to send syn to port '' @ show_int i @ [NL]))] else []))"

function scan_ports :: "(string \<Rightarrow> u32) \<Rightarrow> (int \<Rightarrow> syn_sys) \<Rightarrow> scan_config \<Rightarrow> int \<Rightarrow> int \<Rightarrow> scan_event list" where
  "scan_ports inet_addr sys config i stop =
     (if i \<le> stop then scan_port inet_addr sys config i @ scan_ports inet_addr sys config (i + 1) stop else [])"
  by pat_completeness auto
termination by (relation "measure (\<lambda>(_, _, _, i, stop). nat (stop - i + 1))") auto

declare scan_ports.simps [simp del]

definition INADDR_NONE :: u32 where "INADDR_NONE = 0xffffffff"

text \<open>The configuration \<open>main\<close> gives to both threads.\<close>

definition main_config :: "(string \<Rightarrow> u32) \<Rightarrow> string \<Rightarrow> string list \<Rightarrow> scan_config" where
  "main_config inet_addr ip argv =
     \<lparr>src_ip = cstr (strncpy ip IP_SIZE), dst_ip = strncpy (argv ! 1) IP_SIZE, src_port = SOURCE_PORT,
      port_start = atoi (argv ! 2), port_end = atoi (argv ! 3), dest_addr = inet_addr (argv ! 1)\<rparr>"

text \<open>\<open>main\<close>; the listener thread runs beside the loop and only reads the configuration.\<close>

definition scan_main ::
  "(string \<Rightarrow> u32) \<Rightarrow> (io list + string) \<Rightarrow> bool \<Rightarrow> (int \<Rightarrow> syn_sys) \<Rightarrow> string list \<Rightarrow> scan_event list \<times> int" where
  "scan_main inet_addr local_ip pthread_ok sys argv =
     (if length argv < 4 then
        ([ScanIo (Err (''Usage: portscanner <IP> <PORT START> <PORT END>'' @ [NL]))], 1)
      else
        let target = argv ! 1; start = atoi (argv ! 2); stop = atoi (argv ! 3) in
        if inet_addr target = INADDR_NONE then ([ScanIo (Err (''IP invalid'' @ [NL]))], 1)
        else if start < 1 \<or> stop > 65535 \<or> start > stop then
          ([ScanIo (Err (''Ports must be between 1 and 65535, and start <= end'' @ [NL]))], 1)
        else case local_ip of
          Inl es \<Rightarrow> (map ScanIo es, 1)
        | Inr ip \<Rightarrow>
            let config = main_config inet_addr ip argv;
                hello = ScanIo (Out (''Scanning ports '' @ show_int start @ ''-'' @ show_int stop @ '' on '' @ target @ [NL]))
            in if \<not> pthread_ok then ([hello, ScanIo (Perror ''pthread'')], 1)
               else (hello # scan_ports inet_addr sys config start stop @ [ScanIo (Out (''Finished'' @ [NL]))], 0))"

subsection \<open>Lemmas\<close>

lemma enc_pseudo_length [simp]: "length (enc_pseudo p) = 12"
  by (simp add: enc_pseudo_def)

lemma enc_tcph_check:
  "enc_tcph (t\<lparr>th_check := c\<rparr>) =
     (le16 (th_source t) @ le16 (th_dest t) @ le32 (th_seq t) @ le32 (th_ack_seq t) @
      [th_off t, th_flags t] @ le16 (th_window t)) @ le16 c @ le16 (th_urg_ptr t)"
  by (simp add: enc_tcph_def)

lemma le16_0: "le16 0 = [0, 0]"
  by (simp add: le16_pair)

text \<open>A header whose \<open>check\<close> was 0 when \<open>tcp_checksum\<close> was taken verifies once it is filled in.\<close>

lemma tcp_checksum_verifies:
  assumes "th_check t = 0"
  shows "checksum (enc_pseudo (tcp_pseudo iph) @ enc_tcph (t\<lparr>th_check := tcp_checksum t iph\<rparr>)) = 0"
proof -
  let ?pre = "enc_pseudo (tcp_pseudo iph) @
      (le16 (th_source t) @ le16 (th_dest t) @ le32 (th_seq t) @ le32 (th_ack_seq t) @
       [th_off t, th_flags t] @ le16 (th_window t))"
  have t: "t = t\<lparr>th_check := 0\<rparr>" using assms by simp
  have "tcp_checksum t iph = checksum (?pre @ [0, 0] @ le16 (th_urg_ptr t))"
    unfolding tcp_checksum_def by (subst t) (simp add: enc_tcph_check le16_0)
  from checksum_verifies_at [OF _ _ this] show ?thesis
    by (simp add: enc_tcph_check)
qed

lemma scan_port_eq:
  "scan_port inet_addr sys config = (\<lambda>i. fst (syn_scan inet_addr (sys i) config i) @
     (if snd (syn_scan inet_addr (sys i) config i) \<noteq> 0
      then [ScanIo (Err (''Failed to send syn to port '' @ show_int i @ [NL]))] else []))"
  by (simp add: fun_eq_iff scan_port_def case_prod_beta)

lemma scan_ports_upto:
  "scan_ports inet_addr sys config i stop = concat (map (scan_port inet_addr sys config) [i..stop])"
proof (induction inet_addr sys config i stop rule: scan_ports.induct)
  case (1 inet_addr sys config i stop)
  then show ?case by (subst scan_ports.simps) (auto simp: upto_rec1)
qed

text \<open>A datagram as it is on the wire: an IP header, its options and a TCP header with its payload.\<close>

definition datagram :: "iphdr \<Rightarrow> u8 list \<Rightarrow> tcphdr \<Rightarrow> u8 list \<Rightarrow> u8 list" where
  "datagram iph opts tcph payload = enc_iph iph @ opts @ enc_tcph tcph @ payload"

definition well_formed_datagram :: "iphdr \<Rightarrow> u8 list \<Rightarrow> u8 list \<Rightarrow> bool" where
  "well_formed_datagram iph opts payload \<longleftrightarrow>
     20 + length opts = 4 * unat (ihl iph) \<and> length opts + length payload \<le> SIZE - 40"

lemma process_datagram:
  assumes "well_formed_datagram iph opts payload" and "40 \<le> len"
  shows "process (datagram iph opts tcph payload @ rest) len config =
    (let p = int (unat (ntohs (th_source tcph))) in
     if ip_saddr iph = dest_addr config \<and> int (unat (ntohs (th_dest tcph))) = src_port config \<and>
        port_start config \<le> p \<and> p \<le> port_end config \<and> th_syn tcph \<and> th_ack tcph
     then [Out (open_line p)] else [])"
proof -
  have len: "unat (ihl iph) * 4 = length (enc_iph iph @ opts)" using assms(1) by (simp add: well_formed_datagram_def)
  have ip: "dec_iph (datagram iph opts tcph payload @ rest) = iph"
    by (simp add: datagram_def iph.dec_enc)
  have "drop (unat (ihl iph) * 4) (datagram iph opts tcph payload @ rest) = enc_tcph tcph @ payload @ rest"
    unfolding len datagram_def by simp
  then have "dec_tcph (drop (unat (ihl iph) * 4) (datagram iph opts tcph payload @ rest)) = tcph"
    by (simp add: tcph.dec_enc)
  with assms(2) show ?thesis unfolding process_def Let_def ip by auto
qed

text \<open>What the listener prints for a sequence of datagrams.\<close>

definition reports :: "scan_config \<Rightarrow> iphdr \<times> u8 list \<times> tcphdr \<times> u8 list \<Rightarrow> io list" where
  "reports config = (\<lambda>(iph, opts, tcph, payload).
     if ip_saddr iph = dest_addr config \<and> int (unat (ntohs (th_dest tcph))) = src_port config \<and>
        port_start config \<le> int (unat (ntohs (th_source tcph))) \<and>
        int (unat (ntohs (th_source tcph))) \<le> port_end config \<and> th_syn tcph \<and> th_ack tcph
     then [Out (open_line (int (unat (ntohs (th_source tcph)))))] else [])"

lemma listen_datagrams:
  assumes "\<forall>(iph, opts, tcph, payload) \<in> set ds. well_formed_datagram iph opts payload"
  shows "listen_loop config buffer (map (\<lambda>(iph, opts, tcph, payload). RecvData (datagram iph opts tcph payload)) ds) =
    concat (map (reports config) ds)"
  using assms
proof (induction ds arbitrary: buffer)
  case (Cons d ds)
  obtain iph opts tcph payload where d: "d = (iph, opts, tcph, payload)" by (cases d) auto
  with Cons.prems have wf: "well_formed_datagram iph opts payload" by simp
  then have "length (datagram iph opts tcph payload) \<le> SIZE" "40 \<le> length (datagram iph opts tcph payload)"
    by (simp_all add: well_formed_datagram_def datagram_def SIZE_def)
  then have "read_into (datagram iph opts tcph payload) buffer =
      (datagram iph opts tcph payload @ drop (length (datagram iph opts tcph payload)) buffer,
       int (length (datagram iph opts tcph payload)))"
    and "40 \<le> int (length (datagram iph opts tcph payload))"
    by (simp_all add: read_into_def)
  with Cons wf show ?case by (simp add: d process_datagram reports_def Let_def)
qed simp

lemma unat_htons_port: "0 \<le> p \<Longrightarrow> p \<le> 65535 \<Longrightarrow> int (unat (ntohs (htons (word_of_int p)))) = p"
proof -
  assume p: "0 \<le> p" "p \<le> 65535"
  then have "uint (word_of_int p :: u16) = p" by (simp add: uint_word_of_int)
  then show ?thesis by simp
qed

lemma show_nat_inj: "show_nat m = show_nat n \<Longrightarrow> m = n"
proof -
  assume "show_nat m = show_nat n"
  then have "read_base 10 (show_base 10 m) = read_base 10 (show_base 10 n)" by (simp add: show_nat_def)
  then show ?thesis by (simp add: read_show_base)
qed

lemma show_int_inj: "0 \<le> a \<Longrightarrow> 0 \<le> b \<Longrightarrow> show_int a = show_int b \<Longrightarrow> a = b"
  by (auto simp: show_int_def dest: show_nat_inj)

lemma open_line_inj: "0 \<le> a \<Longrightarrow> 0 \<le> b \<Longrightarrow> open_line a = open_line b \<Longrightarrow> a = b"
  by (rule show_int_inj) (simp_all add: open_line_def)

text \<open>A datagram that answers the scan with a SYN-ACK from port \<open>p\<close> of the target.\<close>

definition syn_ack_from :: "scan_config \<Rightarrow> int \<Rightarrow> iphdr \<times> u8 list \<times> tcphdr \<times> u8 list \<Rightarrow> bool" where
  "syn_ack_from config p = (\<lambda>(iph, opts, tcph, payload).
     ip_saddr iph = dest_addr config \<and> int (unat (ntohs (th_dest tcph))) = src_port config \<and>
     int (unat (ntohs (th_source tcph))) = p \<and> th_syn tcph \<and> th_ack tcph)"

lemma reports_iff:
  assumes "0 \<le> p"
  shows "Out (open_line p) \<in> set (reports config d) \<longleftrightarrow>
    port_start config \<le> p \<and> p \<le> port_end config \<and> syn_ack_from config p d"
proof -
  obtain iph opts tcph payload where d: "d = (iph, opts, tcph, payload)" by (cases d) auto
  have "open_line p = open_line (int (unat (ntohs (th_source tcph)))) \<longleftrightarrow> p = int (unat (ntohs (th_source tcph)))"
    using open_line_inj [OF assms, of "int (unat (ntohs (th_source tcph)))"] by auto
  then show ?thesis by (auto simp: d reports_def syn_ack_from_def)
qed

lemma zero_tcph_sel [simp]: "th_off zero_tcph = 0" "th_flags zero_tcph = 0"
  by (simp_all add: zero_tcph_def dec_tcph_def)

text \<open>The packet as a receiver sees it.\<close>

lemma syn_packet_headers:
  fixes inet_addr :: "string \<Rightarrow> u32" and sys :: syn_sys and config :: scan_config
  assumes "0 \<le> port" and "port \<le> 65535"
  defines "packet \<equiv> syn_packet inet_addr sys config port"
  shows "length packet = 40 \<and>
    (let iph = dec_iph packet; tcph = dec_tcph (drop 20 packet) in
       ihl iph = 5 \<and> ip_protocol iph = 6 \<and> ip_saddr iph = inet_addr (src_ip config) \<and>
       ip_daddr iph = dest_addr config \<and> ntohs (th_source tcph) = word_of_int (src_port config) \<and>
       int (unat (ntohs (th_dest tcph))) = port \<and> th_syn tcph \<and> \<not> th_ack tcph \<and>
       checksum (enc_pseudo (tcp_pseudo iph) @ drop 20 packet) = 0)"
proof -
  define iph where "iph = build_iph inet_addr (rand_id sys) config zero_iph"
  define tcph where "tcph = build_tcph (rand_seq sys) config port iph zero_tcph"
  have packet: "packet = enc_iph iph @ enc_tcph tcph"
    by (simp add: packet_def syn_packet_def iph_def tcph_def Let_def)
  have "checksum (enc_pseudo (tcp_pseudo iph) @ enc_tcph tcph) = 0"
    unfolding tcph_def build_tcph_def Let_def by (rule tcp_checksum_verifies) simp
  moreover have "ihl iph = 5" "ip_protocol iph = 6" "ip_saddr iph = inet_addr (src_ip config)"
    "ip_daddr iph = dest_addr config"
    by (simp_all add: iph_def build_iph_def ihl_def IPPROTO_TCP_def)
  moreover have "ntohs (th_source tcph) = word_of_int (src_port config)"
    "int (unat (ntohs (th_dest tcph))) = port" "th_syn tcph" "\<not> th_ack tcph"
    using unat_htons_port [OF assms(1,2)]
    by (simp_all add: tcph_def build_tcph_def Let_def th_syn_def th_ack_def)
  ultimately show ?thesis
    using iph.dec_enc [of iph "enc_tcph tcph"] tcph.dec_enc_exact [of tcph]
    by (simp add: packet Let_def)
qed

subsection \<open>Properties\<close>


definition demo_sys :: syn_sys where
  "demo_sys = \<lparr>raw_socket_ok = True, hdrincl_ok = True, sendto_ok = True, rand_id = 7, rand_seq = 11\<rparr>"

definition demo_config :: scan_config where
  "demo_config =
     \<lparr>src_ip = ''10.0.0.2'', dst_ip = ''10.0.0.9'', src_port = SOURCE_PORT, port_start = 20, port_end = 25,
      dest_addr = 0x0900000a\<rparr>"


text \<open>
  (C17) The listener reports exactly the open ports: over any sequence of well-formed datagrams that fit
  the buffer, with IP options or without, it prints the line for a port exactly when the port is in
  the scanned range and some datagram is a SYN-ACK from that port of the target to the scanner's
  port; everything else is ignored.
\<close>

theorem listener_reports_open_ports:
  assumes "\<forall>(iph, opts, tcph, payload) \<in> set ds. well_formed_datagram iph opts payload" and "0 \<le> p"
  shows "Out (open_line p) \<in> set (listen_synacks True config buffer
      (map (\<lambda>(iph, opts, tcph, payload). RecvData (datagram iph opts tcph payload)) ds)) \<longleftrightarrow>
    port_start config \<le> p \<and> p \<le> port_end config \<and> (\<exists>d \<in> set ds. syn_ack_from config p d)"
  using reports_iff [OF assms(2), of config] by (auto simp: listen_synacks_def listen_datagrams [OF assms(1)])

definition demo_reply :: "iphdr \<times> u8 list \<times> tcphdr \<times> u8 list" where
  "demo_reply =
     (zero_iph\<lparr>ip_vihl := 0x46, ip_saddr := 0x0900000a\<rparr>, [1, 1, 1, 1],
      zero_tcph\<lparr>th_source := htons 22, th_dest := htons 45677, th_flags := 0x12\<rparr>, [])"

theorem listener_reports_open_ports_witness:
  "Out (open_line 22) \<in> set (listen_synacks True demo_config []
     [RecvData (case demo_reply of (iph, opts, tcph, payload) \<Rightarrow> datagram iph opts tcph payload)])"
proof -
  have "syn_ack_from demo_config 22 demo_reply"
    by (simp add: syn_ack_from_def demo_reply_def demo_config_def SOURCE_PORT_def th_syn_def th_ack_def bit_numeral_rec)
  then show ?thesis
    using listener_reports_open_ports [of "[demo_reply]" 22 demo_config "[]"]
    by (simp add: demo_reply_def well_formed_datagram_def ihl_def SIZE_def demo_config_def)
qed

text \<open>
  The scan covers the range: with valid arguments and a local address, \<open>main\<close> calls \<open>syn_scan\<close> once
  for every port from the first to the last, in order, and reports each port whose packet could not
  be sent; invalid arguments send nothing and end with status 1.
\<close>

lemma scan_main_covers_range:
  assumes "4 \<le> length argv"
  shows "scan_main inet_addr (Inr ip) True sys argv =
    (let start = atoi (argv ! 2); stop = atoi (argv ! 3);
         config = \<lparr>src_ip = cstr (strncpy ip 20), dst_ip = strncpy (argv ! 1) 20, src_port = 45677,
                   port_start = start, port_end = stop, dest_addr = inet_addr (argv ! 1)\<rparr>
     in if inet_addr (argv ! 1) \<noteq> INADDR_NONE \<and> 1 \<le> start \<and> start \<le> stop \<and> stop \<le> 65535
        then (ScanIo (Out (''Scanning ports '' @ show_int start @ ''-'' @ show_int stop @ '' on '' @ argv ! 1 @ [NL])) #
              concat (map (\<lambda>i. fst (syn_scan inet_addr (sys i) config i) @
                 (if snd (syn_scan inet_addr (sys i) config i) \<noteq> 0
                  then [ScanIo (Err (''Failed to send syn to port '' @ show_int i @ [NL]))] else [])) [start..stop]) @
              [ScanIo (Out (''Finished'' @ [NL]))], 0)
        else ([ScanIo (Err ((if inet_addr (argv ! 1) = INADDR_NONE then ''IP invalid''
                else ''Ports must be between 1 and 65535, and start <= end'') @ [NL]))], 1))"
  using assms
  by (auto simp: scan_main_def main_config_def Let_def scan_ports_upto scan_port_eq IP_SIZE_def SOURCE_PORT_def)

text \<open>
  A header length that points past the received bytes is not checked: a datagram of 40 bytes from
  the target whose \<open>ihl\<close> is 15 is judged by the TCP header an earlier, longer datagram left in the
  buffer.  The read stays inside the buffer of 4096 bytes.
\<close>

lemma process_reads_stale_header:
  assumes "length junk = 20" and "length buffer = SIZE" and "ihl iph = 15" and "ip_saddr iph = dest_addr config"
    and "th_syn (dec_tcph (drop 60 buffer))" and "th_ack (dec_tcph (drop 60 buffer))"
    and "int (unat (ntohs (th_dest (dec_tcph (drop 60 buffer))))) = src_port config"
    and "p = int (unat (ntohs (th_source (dec_tcph (drop 60 buffer)))))"
    and "port_start config \<le> p" and "p \<le> port_end config"
  shows "listen_loop config buffer [RecvData (enc_iph iph @ junk)] = [Out (open_line p)] \<and>
    unat (ihl iph) * 4 + 20 \<le> length buffer"
proof -
  have "drop 60 (enc_iph iph @ junk @ drop 40 buffer) = drop 60 buffer"
    using assms(1,2) by (simp add: SIZE_def)
  then show ?thesis
    using assms by (simp add: read_into_def SIZE_def process_def Let_def iph.dec_enc append.assoc)
qed

end
