(* ===== verification/Scan_System.thy ===== *)
theory Scan_System
  imports Portscan
begin

text \<open>
  The port scanner against a target (\<^verbatim>\<open>src/projects/networking/port-scanner/main.c\<close>): the packets \<open>main\<close>
  sends, the target that answers them, and the listener thread that reads the answers among other
  traffic, with the output of the two threads interleaved in any way.  The target is not part of the
  program: it is a parameter, and what is assumed of it is how RFC 793 has a host answer a SYN.
\<close>

type_synonym dgram = "iphdr \<times> u8 list \<times> tcphdr \<times> u8 list"

subsection \<open>The target\<close>

text \<open>A SYN from port \<open>s\<close> to port \<open>p\<close> of address \<open>addr\<close> that a host accepts.\<close>

definition valid_syn :: "u32 \<Rightarrow> int \<Rightarrow> int \<Rightarrow> u8 list \<Rightarrow> bool" where
  "valid_syn addr p s packet \<longleftrightarrow>
     (let iph = dec_iph packet; tcph = dec_tcph (drop 20 packet) in
        length packet = 40 \<and> ihl iph = 5 \<and> ip_protocol iph = IPPROTO_TCP \<and> ip_daddr iph = addr \<and>
        int (unat (ntohs (th_dest tcph))) = p \<and> int (unat (ntohs (th_source tcph))) = s \<and>
        th_syn tcph \<and> \<not> th_ack tcph \<and> checksum (enc_pseudo (tcp_pseudo iph) @ drop 20 packet) = 0)"

text \<open>A SYN-ACK from port \<open>p\<close> of \<open>addr\<close> to port \<open>s\<close>.\<close>

definition syn_ack :: "u32 \<Rightarrow> int \<Rightarrow> int \<Rightarrow> dgram \<Rightarrow> bool" where
  "syn_ack addr p s = (\<lambda>(iph, opts, tcph, payload).
     ip_saddr iph = addr \<and> int (unat (ntohs (th_source tcph))) = p \<and> int (unat (ntohs (th_dest tcph))) = s \<and>
     th_syn tcph \<and> th_ack tcph)"

text \<open>
  A host at \<open>addr\<close> with the ports \<open>opens\<close> open: a SYN-ACK is the answer to a valid SYN for an open port, and
  to nothing else; what else it sends (a reset, say) does not matter.
\<close>

definition tcp_target :: "(u8 list \<Rightarrow> dgram list) \<Rightarrow> u32 \<Rightarrow> int set \<Rightarrow> bool" where
  "tcp_target host addr opens \<longleftrightarrow>
     (\<forall>packet p s. valid_syn addr p s packet \<and> p \<in> opens \<longrightarrow> (\<exists>d \<in> set (host packet). syn_ack addr p s d)) \<and>
     (\<forall>packet p s. \<forall>d \<in> set (host packet). syn_ack addr p s d \<longrightarrow> p \<in> opens \<and> valid_syn addr p s packet)"

subsection \<open>The traffic of a scan\<close>

fun sent_packets :: "scan_event list \<Rightarrow> u8 list list" where
  "sent_packets [] = []"
| "sent_packets (SendTo packet port addr # es) = packet # sent_packets es"
| "sent_packets (ScanIo x # es) = sent_packets es"

text \<open>
  What the listener reads: datagrams that fit its buffer, and interruptions; all answers of the target
  arrive, in any order and any number of times, and what comes from the target's address is its answers.
\<close>

definition scan_traffic :: "(u8 list \<Rightarrow> dgram list) \<Rightarrow> u32 \<Rightarrow> u8 list list \<Rightarrow> dgram list \<Rightarrow> recv_result list \<Rightarrow> bool" where
  "scan_traffic host addr packets ds rs \<longleftrightarrow>
     filter (\<lambda>r. r \<noteq> RecvIntr) rs = map (\<lambda>(iph, opts, tcph, payload). RecvData (datagram iph opts tcph payload)) ds \<and>
     (\<forall>(iph, opts, tcph, payload) \<in> set ds. well_formed_datagram iph opts payload) \<and>
     (\<forall>packet \<in> set packets. set (host packet) \<subseteq> set ds) \<and>
     (\<forall>d \<in> set ds. ip_saddr (fst d) = addr \<longrightarrow> (\<exists>packet \<in> set packets. d \<in> set (host packet)))"

lemma listen_loop_intr: "listen_loop config buffer rs = listen_loop config buffer (filter (\<lambda>r. r \<noteq> RecvIntr) rs)"
  by (induction config buffer rs rule: listen_loop.induct) (auto split: prod.splits)

lemma syn_ack_from_eq: "syn_ack_from config p d \<longleftrightarrow> syn_ack (dest_addr config) p (src_port config) d"
  by (cases d) (auto simp: syn_ack_from_def syn_ack_def)

lemma syn_ack_addr: "syn_ack addr p s d \<Longrightarrow> ip_saddr (fst d) = addr"
  by (cases d) (simp add: syn_ack_def)

text \<open>What the listener prints for such traffic, in terms of the packets sent.\<close>

lemma listener_on_traffic:
  assumes "scan_traffic host (dest_addr config) packets ds rs" and "tcp_target host (dest_addr config) opens" and "0 \<le> p"
  shows "Out (open_line p) \<in> set (listen_synacks True config buffer rs) \<longleftrightarrow>
    port_start config \<le> p \<and> p \<le> port_end config \<and> p \<in> opens \<and>
    (\<exists>packet \<in> set packets. valid_syn (dest_addr config) p (src_port config) packet)"
proof -
  have tr: "filter (\<lambda>r. r \<noteq> RecvIntr) rs = map (\<lambda>(iph, opts, tcph, payload). RecvData (datagram iph opts tcph payload)) ds"
    "\<forall>(iph, opts, tcph, payload) \<in> set ds. well_formed_datagram iph opts payload"
    "\<forall>packet \<in> set packets. set (host packet) \<subseteq> set ds"
    "\<forall>d \<in> set ds. ip_saddr (fst d) = dest_addr config \<longrightarrow> (\<exists>packet \<in> set packets. d \<in> set (host packet))"
    using assms(1) by (simp_all add: scan_traffic_def)
  have host: "valid_syn (dest_addr config) p s packet \<Longrightarrow> p \<in> opens \<Longrightarrow> \<exists>d \<in> set (host packet). syn_ack (dest_addr config) p s d"
    "d \<in> set (host packet) \<Longrightarrow> syn_ack (dest_addr config) p s d \<Longrightarrow> p \<in> opens \<and> valid_syn (dest_addr config) p s packet"
    for p s packet d
    using assms(2) unfolding tcp_target_def by blast+
  have "Out (open_line p) \<in> set (listen_synacks True config buffer rs) \<longleftrightarrow>
      port_start config \<le> p \<and> p \<le> port_end config \<and> (\<exists>d \<in> set ds. syn_ack_from config p d)"
    using reports_iff [OF assms(3), of config] listen_loop_intr [of config buffer rs]
    by (auto simp: listen_synacks_def tr(1) listen_datagrams [OF tr(2)])
  moreover have "(\<exists>d \<in> set ds. syn_ack_from config p d) \<longleftrightarrow>
      p \<in> opens \<and> (\<exists>packet \<in> set packets. valid_syn (dest_addr config) p (src_port config) packet)"
  proof
    assume "\<exists>d \<in> set ds. syn_ack_from config p d"
    then obtain d where d: "d \<in> set ds" "syn_ack (dest_addr config) p (src_port config) d"
      unfolding syn_ack_from_eq by blast
    then obtain packet where "packet \<in> set packets" "d \<in> set (host packet)" using tr(4) syn_ack_addr by blast
    with d(2) host(2) show "p \<in> opens \<and> (\<exists>packet \<in> set packets. valid_syn (dest_addr config) p (src_port config) packet)" by blast
  next
    assume "p \<in> opens \<and> (\<exists>packet \<in> set packets. valid_syn (dest_addr config) p (src_port config) packet)"
    then obtain packet d where "packet \<in> set packets" "d \<in> set (host packet)" "syn_ack (dest_addr config) p (src_port config) d"
      using host(1) by blast
    with tr(3) show "\<exists>d \<in> set ds. syn_ack_from config p d" unfolding syn_ack_from_eq by blast
  qed
  ultimately show ?thesis by blast
qed

subsection \<open>The packets of main\<close>

lemma syn_packet_valid:
  assumes "0 \<le> port" and "port \<le> 65535" and "0 \<le> src_port config" and "src_port config \<le> 65535"
  shows "valid_syn (dest_addr config) q (src_port config) (syn_packet inet_addr sys config port) \<longleftrightarrow> q = port"
proof -
  have "int (unat (word_of_int (src_port config) :: u16)) = src_port config"
    using assms(3,4) by (simp add: uint_word_of_int)
  then show ?thesis
    using syn_packet_headers [OF assms(1,2), of inet_addr sys config]
    by (auto simp: valid_syn_def Let_def IPPROTO_TCP_def)
qed

lemma sent_packets_append [simp]: "sent_packets (es @ es') = sent_packets es @ sent_packets es'"
  by (induction es rule: sent_packets.induct) auto

lemma sent_packets_scan:
  assumes "\<And>i. raw_socket_ok (sys i) \<and> hdrincl_ok (sys i) \<and> sendto_ok (sys i)"
  shows "sent_packets (concat (map (scan_port inet_addr sys config) is)) =
    map (\<lambda>i. syn_packet inet_addr (sys i) config i) is"
  by (induction "is") (simp_all add: scan_port_def syn_scan_def assms)

text \<open>The lines of \<open>main\<close> are not those of the listener.\<close>

lemma scan_port_quiet:
  assumes "\<And>i. raw_socket_ok (sys i) \<and> hdrincl_ok (sys i) \<and> sendto_ok (sys i)"
  shows "ScanIo x \<notin> set (scan_port inet_addr sys config i)"
  by (simp add: scan_port_def syn_scan_def assms)

lemma scan_main_valid:
  assumes "4 \<le> length argv" and "inet_addr (argv ! 1) \<noteq> INADDR_NONE" and "1 \<le> atoi (argv ! 2)"
    and "atoi (argv ! 2) \<le> atoi (argv ! 3)" and "atoi (argv ! 3) \<le> 65535"
  shows "scan_main inet_addr (Inr ip) True sys argv =
    (ScanIo (Out (''Scanning ports '' @ show_int (atoi (argv ! 2)) @ ''-'' @ show_int (atoi (argv ! 3)) @ '' on '' @ argv ! 1 @ [NL])) #
     concat (map (scan_port inet_addr sys (main_config inet_addr ip argv)) [atoi (argv ! 2)..atoi (argv ! 3)]) @
     [ScanIo (Out (''Finished'' @ [NL]))], 0)"
  using assms by (simp add: scan_main_def Let_def scan_ports_upto main_config_def)

subsection \<open>Properties\<close>


text \<open>A target on which port 22 is open.\<close>

definition demo_host :: "u8 list \<Rightarrow> dgram list" where
  "demo_host packet =
     (let tcph = dec_tcph (drop 20 packet) in
      if valid_syn 0x0900000a 22 (int (unat (ntohs (th_source tcph)))) packet
      then [(zero_iph\<lparr>ip_vihl := 0x45, ip_saddr := 0x0900000a\<rparr>, [],
             zero_tcph\<lparr>th_source := htons 22, th_dest := th_source tcph, th_flags := 0x12\<rparr>, [])]
      else [])"

lemma demo_host_target: "tcp_target demo_host 0x0900000a {22}"
proof -
  have flags: "bit (0x12 :: u8) 1" "bit (0x12 :: u8) 4" by (simp_all add: bit_numeral_rec)
  have src: "valid_syn a p (uint (ntohs (th_source (dec_tcph (drop 20 packet))))) packet"
    "uint (ntohs (th_source (dec_tcph (drop 20 packet)))) = s" if "valid_syn a p s packet" for a p s packet
    using that by (simp_all add: valid_syn_def Let_def)
  show ?thesis
    unfolding tcp_target_def demo_host_def
    by (auto simp: Let_def syn_ack_def th_syn_def th_ack_def flags intro: src)
qed


end
