(* ===== verification/Sniffer.thy ===== *)
theory Sniffer
  imports Poll_Table C_Bytes
begin

text \<open>
  \<^verbatim>\<open>src/projects/networking/packet-sniffer/main.c\<close>: promiscuous mode of the interfaces, and the capture
  loop with its filter, its rotation and the pcap file it writes.  The kernel's interface flags are a
  map from names to flag words; each turn of the loop is driven by what \<open>time\<close>, \<open>fopen\<close>, \<open>recvfrom\<close>
  and \<open>gettimeofday\<close> return in it and by whether a signal has arrived.  The file is what has been
  written to the stream.
\<close>

subsection \<open>The file format\<close>

record pcap_header =
  magic_number :: u32
  version_major :: u16
  version_minor :: u16
  reserved1 :: u32
  reserved2 :: u32
  snaplen :: u32
  link_type :: u32

record packet_header =
  ts_sec :: u32
  ts_usec :: u32
  incl_len :: u32
  orig_len :: u32

definition enc_pcap_header :: "pcap_header \<Rightarrow> u8 list" where
  "enc_pcap_header h =
     le32 (magic_number h) @ le16 (version_major h) @ le16 (version_minor h) @ le32 (reserved1 h) @
     le32 (reserved2 h) @ le32 (snaplen h) @ le32 (link_type h)"

definition dec_pcap_header :: "u8 list \<Rightarrow> pcap_header" where
  "dec_pcap_header bs =
     \<lparr>magic_number = rd32 bs, version_major = rd16 (drop 4 bs), version_minor = rd16 (drop 6 bs),
      reserved1 = rd32 (drop 8 bs), reserved2 = rd32 (drop 12 bs), snaplen = rd32 (drop 16 bs),
      link_type = rd32 (drop 20 bs)\<rparr>"

definition enc_packet_header :: "packet_header \<Rightarrow> u8 list" where
  "enc_packet_header h = le32 (ts_sec h) @ le32 (ts_usec h) @ le32 (incl_len h) @ le32 (orig_len h)"

definition dec_packet_header :: "u8 list \<Rightarrow> packet_header" where
  "dec_packet_header bs =
     \<lparr>ts_sec = rd32 bs, ts_usec = rd32 (drop 4 bs), incl_len = rd32 (drop 8 bs), orig_len = rd32 (drop 12 bs)\<rparr>"

interpretation pcap_header: fixed_codec enc_pcap_header dec_pcap_header 24
  by unfold_locales (simp_all add: enc_pcap_header_def dec_pcap_header_def)

interpretation packet_header: fixed_codec enc_packet_header dec_packet_header 16
  by unfold_locales (simp_all add: enc_packet_header_def dec_packet_header_def)

subsection \<open>Promiscuous mode\<close>

definition MAX_IF :: nat where "MAX_IF = 32"
definition IFNAMSIZ :: nat where "IFNAMSIZ = 16"
definition IFF_PROMISC :: u16 where "IFF_PROMISC = 0x100"

record nics =
  if_flags :: "string \<rightharpoonup> u16"
  promisc_interfaces :: "string list"
  nic_log :: "io list"

text \<open>The name in the zeroed \<open>ifr_name\<close> after \<open>strncpy\<close> of at most 15 bytes.\<close>

definition ifr_name :: "string \<Rightarrow> string" where
  "ifr_name arg = cstr (strncpy arg (IFNAMSIZ - 1))"

text \<open>
  \<open>SIOCGIFFLAGS\<close> fails for a name that no interface has, \<open>SIOCSIFFLAGS\<close> where the kernel does not let
  the process change the interface.
\<close>

definition set_promisc :: "(string \<Rightarrow> bool) \<Rightarrow> string \<Rightarrow> nics \<Rightarrow> nics cres" where
  "set_promisc may_set arg st =
     (case if_flags st (ifr_name arg) of
        None \<Rightarrow> Inr (st\<lparr>nic_log := nic_log st @ [Perror ''ioctl'']\<rparr>)
      | Some flags \<Rightarrow>
          if \<not> may_set (ifr_name arg) then Inr (st\<lparr>nic_log := nic_log st @ [Perror ''ioctl'']\<rparr>)
          else
            let st1 = st\<lparr>if_flags := (if_flags st)(ifr_name arg \<mapsto> flags OR IFF_PROMISC)\<rparr>
            in if length (promisc_interfaces st1) < MAX_IF
               then Inr (st1\<lparr>promisc_interfaces := promisc_interfaces st1 @ [arg]\<rparr>)
               else Inl OutOfBounds)"

definition unset_promisc :: "(string \<Rightarrow> bool) \<Rightarrow> string \<Rightarrow> nics \<Rightarrow> nics" where
  "unset_promisc may_set arg st =
     (case if_flags st (ifr_name arg) of
        None \<Rightarrow> st\<lparr>nic_log := nic_log st @ [Perror ''ioctl'']\<rparr>
      | Some flags \<Rightarrow>
          if \<not> may_set (ifr_name arg) then st\<lparr>nic_log := nic_log st @ [Perror ''ioctl'']\<rparr>
          else st\<lparr>if_flags := (if_flags st)(ifr_name arg \<mapsto> flags AND NOT IFF_PROMISC)\<rparr>)"

fun set_promisc_all :: "(string \<Rightarrow> bool) \<Rightarrow> string list \<Rightarrow> nics \<Rightarrow> nics cres" where
  "set_promisc_all may_set [] st = Inr st"
| "set_promisc_all may_set (a # as) st =
     (case set_promisc may_set a st of Inl u \<Rightarrow> Inl u | Inr st' \<Rightarrow> set_promisc_all may_set as st')"

text \<open>The interfaces \<open>main\<close> goes through: its arguments, or all of them but \<open>lo\<close>.\<close>

definition chosen_interfaces :: "string list option \<Rightarrow> string list \<Rightarrow> string list option" where
  "chosen_interfaces nameindex argv =
     (if 1 < length argv then Some (tl argv)
      else case nameindex of None \<Rightarrow> None | Some names \<Rightarrow> Some (filter (\<lambda>n. n \<noteq> ''lo'') names))"

definition cleanup_interfaces :: "(string \<Rightarrow> bool) \<Rightarrow> nics \<Rightarrow> nics" where
  "cleanup_interfaces may_set st = fold (unset_promisc may_set) (promisc_interfaces st) st"

subsection \<open>The capture loop\<close>

definition TIME_ROTATION :: int where "TIME_ROTATION = 7200"
definition MAX_LEN :: nat where "MAX_LEN = 65535"

definition phdr :: pcap_header where
  "phdr =
     \<lparr>magic_number = 0xA1B2C3D4, version_major = 2, version_minor = 4, reserved1 = 0, reserved2 = 0,
      snaplen = of_nat MAX_LEN, link_type = 1\<rparr>"

text \<open>A received frame comes with the name \<open>if_indextoname\<close> gives its interface, if it gives one.\<close>

datatype frame_recv = FrameError | Frame "u8 list" "string option"

record cap_round =
  stop_flag :: bool           \<comment> \<open>\<open>keep_running\<close> is 0 at the loop head\<close>
  now :: int                  \<comment> \<open>\<open>time(NULL)\<close> at the loop head\<close>
  reopen :: "int option"      \<comment> \<open>\<open>fopen\<close> of a rotation, and the time after it\<close>
  recv :: frame_recv
  stop_late :: bool           \<comment> \<open>\<open>keep_running\<close> is 0 after a failed \<open>recvfrom\<close>\<close>
  tv_sec :: int
  tv_usec :: int

record capture =
  disk :: "u8 list"
  file_open :: bool
  start_time :: int
  cap_log :: "io list"

definition capture_start :: "int \<Rightarrow> capture" where
  "capture_start t0 = \<lparr>disk = enc_pcap_header phdr, file_open = True, start_time = t0, cap_log = []\<rparr>"

text \<open>The rotation: \<open>None\<close> when the file cannot be opened again.\<close>

definition rotate_file :: "cap_round \<Rightarrow> capture \<Rightarrow> capture option" where
  "rotate_file rd st =
     (if TIME_ROTATION \<le> now rd - start_time st then
        (case reopen rd of
           None \<Rightarrow> None
         | Some t \<Rightarrow> Some (st\<lparr>disk := enc_pcap_header phdr, start_time := t\<rparr>))
      else Some st)"

definition accepts :: "string list \<Rightarrow> string \<Rightarrow> bool" where
  "accepts argv ifname \<longleftrightarrow>
     (if 1 < length argv then list_ex (\<lambda>a. a = ifname) (tl argv) else ifname \<noteq> ''lo'')"

definition pkt_hdr :: "cap_round \<Rightarrow> u8 list \<Rightarrow> packet_header" where
  "pkt_hdr rd d =
     \<lparr>ts_sec = word_of_int (tv_sec rd), ts_usec = word_of_int (tv_usec rd),
      incl_len = of_nat (length d), orig_len = of_nat (length d)\<rparr>"

definition cap_turn :: "string list \<Rightarrow> cap_round \<Rightarrow> capture \<Rightarrow> capture turn" where
  "cap_turn argv rd st =
     (if stop_flag rd then Ends st
      else case rotate_file rd st of
        None \<Rightarrow> Ends (st\<lparr>file_open := False, cap_log := cap_log st @ [Perror ''fopen'']\<rparr>)
      | Some st1 \<Rightarrow>
          (case recv rd of
             FrameError \<Rightarrow>
               Ends (if stop_late rd then st1 else st1\<lparr>cap_log := cap_log st1 @ [Perror ''recvfrom'']\<rparr>)
           | Frame d0 ifname \<Rightarrow>
               let d = take (MAX_LEN + 1) d0 in
               if length d = 0 \<or> MAX_LEN < length d then Goes st1
               else (case ifname of
                   None \<Rightarrow> Crashes UninitRead
                 | Some n \<Rightarrow>
                     if accepts argv n then Goes (st1\<lparr>disk := disk st1 @ enc_packet_header (pkt_hdr rd d) @ d\<rparr>)
                     else Goes st1)))"

subsection \<open>The signal\<close>

text \<open>
  \<open>signal_handler\<close> may run at any moment; what matters is whether it has run before the loop head, while
  \<open>recvfrom\<close> waits, or later in the turn.
\<close>

record sniffing =
  keep_running :: bool
  cap :: capture

record arrivals =
  sig_head :: bool
  sig_recv :: bool
  sig_late :: bool

definition signal_handler :: "sniffing \<Rightarrow> sniffing" where
  "signal_handler s = s\<lparr>keep_running := False\<rparr>"

definition signalled :: "bool \<Rightarrow> sniffing \<Rightarrow> sniffing" where
  "signalled b s = (if b then signal_handler s else s)"

text \<open>A turn of the loop with the signals that arrive in it.\<close>

definition sig_turn :: "string list \<Rightarrow> arrivals \<times> cap_round \<Rightarrow> sniffing \<Rightarrow> sniffing turn" where
  "sig_turn argv = (\<lambda>(sg, rd) s0.
     let s1 = signalled (sig_head sg) s0;
         s2 = signalled (sig_recv sg) s1;
         s3 = signalled (sig_late sg) s2
     in case cap_turn argv (rd\<lparr>stop_flag := \<not> keep_running s1, stop_late := \<not> keep_running s2\<rparr>) (cap s0) of
          Goes c \<Rightarrow> Goes (s3\<lparr>cap := c\<rparr>)
        | Ends c \<Rightarrow> Ends (s3\<lparr>cap := c\<rparr>)
        | Crashes u \<Rightarrow> Crashes u)"

subsection \<open>The program\<close>

record sniffer_sys =
  socket_ok :: bool
  nameindex :: "string list option"
  sys_may_set :: "string \<Rightarrow> bool"
  fopen_ok :: bool
  time0 :: int

text \<open>
  \<open>main\<close>: the interfaces and the file as it leaves them, with its status; \<open>None\<close> while the capture
  still runs after the given turns.
\<close>

definition sniffer_main ::
  "sniffer_sys \<Rightarrow> string list \<Rightarrow> cap_round list \<Rightarrow> (string \<rightharpoonup> u16) \<Rightarrow>
     (nics \<times> capture option \<times> int) option cres" where
  "sniffer_main sys argv rds flags =
     (let st0 = \<lparr>if_flags = flags, promisc_interfaces = [], nic_log = []\<rparr> in
      if \<not> socket_ok sys then Inr (Some (st0\<lparr>nic_log := [Perror ''socket'']\<rparr>, None, 1))
      else case chosen_interfaces (nameindex sys) argv of
        None \<Rightarrow> Inr (Some (st0\<lparr>nic_log := [Perror ''if_nameindex'']\<rparr>, None, 1))
      | Some names \<Rightarrow>
          (case set_promisc_all (sys_may_set sys) names st0 of
             Inl u \<Rightarrow> Inl u
           | Inr st1 \<Rightarrow>
               if \<not> fopen_ok sys then
                 Inr (Some (cleanup_interfaces (sys_may_set sys) (st1\<lparr>nic_log := nic_log st1 @ [Perror ''fopen'']\<rparr>), None, 0))
               else
                 (case run_turns (cap_turn argv) rds (capture_start (time0 sys)) of
                    Goes c \<Rightarrow> Inr None
                  | Crashes u \<Rightarrow> Inl u
                  | Ends c \<Rightarrow> Inr (Some (cleanup_interfaces (sys_may_set sys) st1, Some c, 0)))))"

subsection \<open>Reading a pcap file\<close>

type_synonym frame = "packet_header \<times> u8 list"

function read_records :: "u8 list \<Rightarrow> frame list option" where
  "read_records bs =
     (if bs = [] then Some []
      else if length bs < 16 then None
      else let h = dec_packet_header bs; n = unat (incl_len h); r = drop 16 bs in
        if length r < n then None
        else map_option (\<lambda>fs. (h, take n r) # fs) (read_records (drop n r)))"
  by pat_completeness auto
termination by (relation "measure length") auto

declare read_records.simps [simp del]

definition read_pcap :: "u8 list \<Rightarrow> frame list option" where
  "read_pcap bs =
     (if length bs < 24 \<or> dec_pcap_header bs \<noteq> phdr then None else read_records (drop 24 bs))"

definition enc_frame :: "frame \<Rightarrow> u8 list" where
  "enc_frame f = enc_packet_header (fst f) @ snd f"

definition wf_frame :: "frame \<Rightarrow> bool" where
  "wf_frame f \<longleftrightarrow> unat (incl_len (fst f)) = length (snd f)"

definition pcap_file :: "frame list \<Rightarrow> u8 list" where
  "pcap_file fs = enc_pcap_header phdr @ concat (map enc_frame fs)"

lemma read_records_frames: "\<forall>f \<in> set fs. wf_frame f \<Longrightarrow> read_records (concat (map enc_frame fs)) = Some fs"
proof (induction fs)
  case Nil
  show ?case by (simp add: read_records.simps)
next
  case (Cons f fs)
  obtain h d where f: "f = (h, d)" by (cases f)
  let ?bs = "enc_packet_header h @ d @ concat (map enc_frame fs)"
  have len: "length (enc_packet_header h) = 16" by (rule packet_header.length_enc)
  have n: "unat (incl_len h) = length d" using Cons.prems f by (simp add: wf_frame_def)
  have "enc_packet_header h \<noteq> []" using len by auto
  then have "read_records ?bs = map_option (\<lambda>fs. (h, d) # fs) (read_records (concat (map enc_frame fs)))"
    by (subst read_records.simps) (simp add: packet_header.dec_enc len n Let_def)
  with Cons show ?case by (simp add: f enc_frame_def [of "(h, d)"])
qed

lemma read_pcap_file: "\<forall>f \<in> set fs. wf_frame f \<Longrightarrow> read_pcap (pcap_file fs) = Some fs"
  by (simp add: read_pcap_def pcap_file_def pcap_header.length_enc pcap_header.dec_enc read_records_frames)

lemma pcap_file_snoc: "pcap_file fs @ enc_packet_header h @ d = pcap_file (fs @ [(h, d)])"
  by (simp add: pcap_file_def enc_frame_def)

lemma pcap_file_Nil: "enc_pcap_header phdr = pcap_file []"
  by (simp add: pcap_file_def)

lemma wf_pkt_hdr: "length d \<le> MAX_LEN \<Longrightarrow> wf_frame (pkt_hdr rd d, d)"
  by (simp add: wf_frame_def pkt_hdr_def MAX_LEN_def unat_of_nat)

subsection \<open>What is in the file\<close>

text \<open>The frame a turn records, and the turns whose frames the file holds.\<close>

definition recorded :: "string list \<Rightarrow> cap_round \<Rightarrow> frame list" where
  "recorded argv rd =
     (case recv rd of
        Frame d (Some n) \<Rightarrow>
          if 0 < length d \<and> length d \<le> MAX_LEN \<and> accepts argv n then [(pkt_hdr rd d, d)] else []
      | _ \<Rightarrow> [])"

definition current_window :: "int \<Rightarrow> cap_round list \<Rightarrow> cap_round list \<Rightarrow> int \<Rightarrow> bool" where
  "current_window t0 pre win t \<longleftrightarrow>
     (pre = [] \<and> t = t0 \<and> (\<forall>r \<in> set win. now r - t < TIME_ROTATION)) \<or>
     (win \<noteq> [] \<and> reopen (hd win) = Some t \<and> (\<forall>r \<in> set (tl win). now r - t < TIME_ROTATION))"

definition holds_window :: "string list \<Rightarrow> int \<Rightarrow> cap_round list \<Rightarrow> capture \<Rightarrow> bool" where
  "holds_window argv t0 rds st \<longleftrightarrow>
     (\<exists>pre win. rds = pre @ win \<and> current_window t0 pre win (start_time st) \<and>
        disk st = pcap_file (concat (map (recorded argv) win)))"

lemma wf_recorded: "f \<in> set (recorded argv rd) \<Longrightarrow> wf_frame f"
  by (auto simp: recorded_def wf_pkt_hdr split: frame_recv.splits option.splits if_splits)

lemma cap_turn_Goes:
  assumes "cap_turn argv rd st = Goes st'"
  shows "\<exists>st1. rotate_file rd st = Some st1 \<and> start_time st' = start_time st1 \<and>
    disk st' = disk st1 @ concat (map enc_frame (recorded argv rd))"
  using assms
  by (auto simp: cap_turn_def recorded_def enc_frame_def Let_def
      split: if_splits option.splits frame_recv.splits)

lemma current_window_snoc:
  "current_window t0 pre win t \<Longrightarrow> now rd - t < TIME_ROTATION \<Longrightarrow> current_window t0 pre (win @ [rd]) t"
  by (auto simp: current_window_def)

lemma holds_window_turn:
  assumes "holds_window argv t0 rds st" and "cap_turn argv rd st = Goes st'"
  shows "holds_window argv t0 (rds @ [rd]) st'"
proof -
  obtain pre win where w: "rds = pre @ win" "current_window t0 pre win (start_time st)"
    "disk st = pcap_file (concat (map (recorded argv) win))"
    using assms(1) by (auto simp: holds_window_def)
  obtain st1 where s: "rotate_file rd st = Some st1" "start_time st' = start_time st1"
    "disk st' = disk st1 @ concat (map enc_frame (recorded argv rd))"
    using cap_turn_Goes [OF assms(2)] by blast
  show ?thesis
  proof (cases "TIME_ROTATION \<le> now rd - start_time st")
    case True
    with s have "reopen rd = Some (start_time st1)" "disk st1 = enc_pcap_header phdr"
      by (auto simp: rotate_file_def split: option.splits)
    with s show ?thesis unfolding holds_window_def
      by (intro exI [of _ rds] exI [of _ "[rd]"]) (simp add: current_window_def pcap_file_def)
  next
    case False
    with s(1) have "st1 = st" by (simp add: rotate_file_def)
    with s w False show ?thesis unfolding holds_window_def
      by (intro exI [of _ pre] exI [of _ "win @ [rd]"]) (simp add: current_window_snoc pcap_file_def)
  qed
qed

lemma holds_window_run:
  "holds_window argv t0 hist st \<Longrightarrow> run_turns (cap_turn argv) rds st = Goes st' \<Longrightarrow> holds_window argv t0 (hist @ rds) st'"
proof (induction rds arbitrary: hist st)
  case (Cons rd rds)
  then obtain st1 where "cap_turn argv rd st = Goes st1" "run_turns (cap_turn argv) rds st1 = Goes st'"
    by (auto split: turn.splits)
  with Cons.IH [of "hist @ [rd]" st1] holds_window_turn [OF Cons.prems(1)] show ?case by simp
qed simp

text \<open>Whatever happens, the file is a valid capture of frames from the chosen interfaces.\<close>

definition valid_capture :: "capture \<Rightarrow> bool" where
  "valid_capture st \<longleftrightarrow> (\<exists>fs. disk st = pcap_file fs \<and> (\<forall>f \<in> set fs. wf_frame f))"

lemma valid_capture_rotate: "valid_capture st \<Longrightarrow> rotate_file rd st = Some st1 \<Longrightarrow> valid_capture st1"
  by (auto simp: rotate_file_def valid_capture_def pcap_file_Nil split: if_splits option.splits)

lemma valid_capture_cong: "disk st' = disk st \<Longrightarrow> valid_capture st' = valid_capture st"
  by (simp add: valid_capture_def)

interpretation sniffer: turn_machine "cap_turn argv" "\<lambda>_ _. True" valid_capture for argv
proof unfold_locales
  fix st rd st'
  assume "valid_capture st" "cap_turn argv rd st = Goes st'"
  moreover from this(2) obtain st1 where s: "rotate_file rd st = Some st1"
    "disk st' = disk st1 @ concat (map enc_frame (recorded argv rd))"
    using cap_turn_Goes by blast
  ultimately have "valid_capture st1" by (auto intro: valid_capture_rotate)
  then obtain fs where "disk st1 = pcap_file fs" "\<forall>f \<in> set fs. wf_frame f" by (auto simp: valid_capture_def)
  with s(2) wf_recorded [of _ argv rd] show "valid_capture st'" unfolding valid_capture_def
    by (intro exI [of _ "fs @ recorded argv rd"]) (auto simp: pcap_file_def)
next
  fix st rd st'
  assume "valid_capture st" "cap_turn argv rd st = Ends st'"
  then show "valid_capture st'"
    by (auto simp: cap_turn_def Let_def valid_capture_cong [of "_\<lparr>cap_log := _\<rparr>"]
        valid_capture_cong [of "_\<lparr>file_open := _, cap_log := _\<rparr>"]
        dest: valid_capture_rotate split: if_splits option.splits frame_recv.splits)
qed

subsection \<open>Interfaces\<close>

definition settable :: "(string \<Rightarrow> bool) \<Rightarrow> (string \<rightharpoonup> u16) \<Rightarrow> string \<Rightarrow> bool" where
  "settable may_set flags a \<longleftrightarrow> flags (ifr_name a) \<noteq> None \<and> may_set (ifr_name a)"

text \<open>The flags after a function has been applied to the interfaces of some names.\<close>

definition change_flags :: "(u16 \<Rightarrow> u16) \<Rightarrow> string set \<Rightarrow> (string \<rightharpoonup> u16) \<Rightarrow> (string \<rightharpoonup> u16)" where
  "change_flags g ns flags = (\<lambda>n. if n \<in> ns then map_option g (flags n) else flags n)"

lemma change_flags_empty [simp]: "change_flags g {} flags = flags"
  by (simp add: change_flags_def)

lemma change_flags_None [simp]: "change_flags g ns flags n = None \<longleftrightarrow> flags n = None"
  by (simp add: change_flags_def)

lemma settable_change_flags [simp]: "settable may_set (change_flags g ns flags) = settable may_set flags"
  by (simp add: settable_def fun_eq_iff)

lemma change_flags_step:
  "flags n = Some v \<Longrightarrow> flags(n \<mapsto> g v) = change_flags g {n} flags"
  by (auto simp: change_flags_def fun_eq_iff)

lemma change_flags_twice:
  "(\<And>x. g (g x) = g x) \<Longrightarrow> change_flags g ns (change_flags g ms flags) = change_flags g (ms \<union> ns) flags"
  by (auto simp: change_flags_def fun_eq_iff option.map_comp comp_def)

lemma promisc_idem: "(x OR IFF_PROMISC) OR IFF_PROMISC = x OR IFF_PROMISC"
  "(x AND NOT IFF_PROMISC) AND NOT IFF_PROMISC = x AND NOT IFF_PROMISC"
  "(x OR IFF_PROMISC) AND NOT IFF_PROMISC = x AND NOT IFF_PROMISC"
  by (simp_all add: bit_eq_iff bit_simps, auto)

lemma set_promisc_cases:
  "set_promisc may_set a st =
     (if \<not> settable may_set (if_flags st) a then Inr (st\<lparr>nic_log := nic_log st @ [Perror ''ioctl'']\<rparr>)
      else if length (promisc_interfaces st) < MAX_IF
        then Inr (st\<lparr>if_flags := change_flags (\<lambda>x. x OR IFF_PROMISC) {ifr_name a} (if_flags st),
                     promisc_interfaces := promisc_interfaces st @ [a]\<rparr>)
        else Inl OutOfBounds)"
  by (auto simp: set_promisc_def settable_def Let_def
      change_flags_step [where g = "\<lambda>x. x OR IFF_PROMISC"] split: option.splits)

lemma set_promisc_all_eq:
  "length (promisc_interfaces st) \<le> MAX_IF \<Longrightarrow>
   set_promisc_all may_set as st =
     (let ok = filter (settable may_set (if_flags st)) as in
      if length (promisc_interfaces st) + length ok \<le> MAX_IF
      then Inr (st\<lparr>if_flags := change_flags (\<lambda>x. x OR IFF_PROMISC) (ifr_name ` set ok) (if_flags st),
                   promisc_interfaces := promisc_interfaces st @ ok,
                   nic_log := nic_log st @ replicate (length as - length ok) (Perror ''ioctl'')\<rparr>)
      else Inl OutOfBounds)"
proof (induction "as" arbitrary: st)
  case (Cons a "as")
  show ?case
  proof (cases "settable may_set (if_flags st) a")
    case True
    then show ?thesis
      using Cons.prems Cons.IH
        [of "st\<lparr>if_flags := change_flags (\<lambda>x. x OR IFF_PROMISC) {ifr_name a} (if_flags st),
               promisc_interfaces := promisc_interfaces st @ [a]\<rparr>"]
      by (auto simp: set_promisc_cases Let_def change_flags_twice promisc_idem)
  next
    case False
    have "Suc (length as) - length (filter P as) = Suc (length as - length (filter P as))" for P
      by (simp add: Suc_diff_le)
    with False show ?thesis
      using Cons.prems Cons.IH [of "st\<lparr>nic_log := nic_log st @ [Perror ''ioctl'']\<rparr>"]
      by (simp add: set_promisc_cases Let_def)
  qed
qed simp

lemma unset_promisc_flags:
  "settable may_set (if_flags st) a \<Longrightarrow>
     unset_promisc may_set a st =
       st\<lparr>if_flags := change_flags (\<lambda>x. x AND NOT IFF_PROMISC) {ifr_name a} (if_flags st)\<rparr>"
  by (auto simp: unset_promisc_def settable_def
      change_flags_step [where g = "\<lambda>x. x AND NOT IFF_PROMISC"] split: option.splits)

lemma unset_promisc_fold:
  "\<forall>a \<in> set as. settable may_set (if_flags st) a \<Longrightarrow>
     fold (unset_promisc may_set) as st =
       st\<lparr>if_flags := change_flags (\<lambda>x. x AND NOT IFF_PROMISC) (ifr_name ` set as) (if_flags st)\<rparr>"
proof (induction "as" arbitrary: st)
  case (Cons a "as")
  then show ?case by (simp add: unset_promisc_flags change_flags_twice promisc_idem)
qed simp

lemma change_flags_restore:
  "change_flags (\<lambda>x. x AND NOT IFF_PROMISC) ns (change_flags (\<lambda>x. x OR IFF_PROMISC) ns flags) =
     change_flags (\<lambda>x. x AND NOT IFF_PROMISC) ns flags"
  by (auto simp: change_flags_def fun_eq_iff option.map_comp comp_def promisc_idem)

lemma cleanup_after_set:
  assumes "set_promisc_all may_set names \<lparr>if_flags = flags, promisc_interfaces = [], nic_log = []\<rparr> = Inr st1"
  shows "if_flags (cleanup_interfaces may_set (st1\<lparr>nic_log := l\<rparr>)) =
    change_flags (\<lambda>x. x AND NOT IFF_PROMISC) (ifr_name ` {a \<in> set names. settable may_set flags a}) flags"
proof -
  let ?ok = "filter (settable may_set flags) names"
  have st1: "if_flags st1 = change_flags (\<lambda>x. x OR IFF_PROMISC) (ifr_name ` set ?ok) flags"
    "promisc_interfaces st1 = ?ok"
    using assms by (auto simp: set_promisc_all_eq Let_def split: if_splits)
  then have "\<forall>a \<in> set (promisc_interfaces st1). settable may_set (if_flags (st1\<lparr>nic_log := l\<rparr>)) a" by simp
  from unset_promisc_fold [OF this] st1 show ?thesis
    by (simp add: cleanup_interfaces_def change_flags_restore)
qed

lemma valid_capture_start: "valid_capture (capture_start t0)"
  by (auto simp: valid_capture_def capture_start_def pcap_file_Nil intro: exI [of _ "[]"])

lemma valid_capture_reads: "valid_capture st \<Longrightarrow> read_pcap (disk st) \<noteq> None"
  by (auto simp: valid_capture_def read_pcap_file)

subsection \<open>Signals\<close>

lemma keep_signalled [simp]: "keep_running (signalled b s) \<longleftrightarrow> keep_running s \<and> \<not> b" "cap (signalled b s) = cap s"
  by (auto simp: signalled_def signal_handler_def)

lemma sig_turn_stops: "\<not> keep_running s \<Longrightarrow> \<exists>s'. sig_turn argv x s = Ends s' \<and> cap s' = cap s"
  by (auto simp: sig_turn_def cap_turn_def Let_def split: prod.split)

lemma sig_turn_keep:
  "sig_turn argv (sg, rd) s = Goes s' \<Longrightarrow>
     keep_running s' \<longleftrightarrow> keep_running s \<and> \<not> (sig_head sg \<or> sig_recv sg \<or> sig_late sg)"
  by (auto simp: sig_turn_def Let_def split: turn.splits)

text \<open>With the signals in it a turn is still a turn of the capture loop.\<close>

lemma sig_turn_capture:
  "\<exists>rd'. (\<forall>s'. sig_turn argv x s = Goes s' \<longrightarrow> cap_turn argv rd' (cap s) = Goes (cap s')) \<and>
     (\<forall>s'. sig_turn argv x s = Ends s' \<longrightarrow> cap_turn argv rd' (cap s) = Ends (cap s'))"
proof -
  obtain sg rd where x: "x = (sg, rd)" by (cases x)
  show ?thesis
    by (rule exI [of _ "rd\<lparr>stop_flag := \<not> keep_running (signalled (sig_head sg) s),
        stop_late := \<not> keep_running (signalled (sig_recv sg) (signalled (sig_head sg) s))\<rparr>"])
      (auto simp: x sig_turn_def Let_def simp del: keep_signalled(1) split: turn.splits)
qed

interpretation sig_sniffer: turn_machine "sig_turn argv" "\<lambda>_ _. True" "valid_capture \<circ> cap" for argv
proof (unfold_locales, goal_cases)
  case (1 s x s')
  then show ?case using sig_turn_capture [of argv x s] sniffer.goes by fastforce
next
  case (2 s x s')
  then show ?case using sig_turn_capture [of argv x s] sniffer.ends by fastforce
qed

lemma run_after_signal:
  assumes "sig_head sg \<or> sig_recv sg \<or> sig_late sg"
  shows "run_turns (sig_turn argv) (pre @ (sg, rd) # x # post) s \<noteq> Goes s'"
proof (induction pre arbitrary: s)
  case Nil
  show ?case
  proof (cases "sig_turn argv (sg, rd) s")
    case (Goes s1)
    then have "\<not> keep_running s1" using sig_turn_keep assms by blast
    then obtain s2 where "sig_turn argv x s1 = Ends s2" using sig_turn_stops by blast
    with Goes show ?thesis by simp
  qed simp_all
next
  case (Cons y pre)
  then show ?case by (auto split: turn.splits)
qed

subsection \<open>Properties\<close>


definition demo_frame_round :: "int \<Rightarrow> u8 list \<Rightarrow> string \<Rightarrow> cap_round" where
  "demo_frame_round t d ifname =
     \<lparr>stop_flag = False, now = t, reopen = Some t, recv = Frame d (Some ifname), stop_late = False,
      tv_sec = t, tv_usec = 0\<rparr>"


text \<open>
  (C22) Promiscuous mode is taken back: when the program ends, for whatever reason, every interface it
  had switched has the promiscuous bit clear and its other flags as they were, and every other
  interface is as it was.
\<close>

theorem sniffer_restores_interfaces:
  assumes "sniffer_main sys argv rds flags = Inr (Some (st, c, code))"
    and "socket_ok sys" and "chosen_interfaces (nameindex sys) argv = Some names"
  shows "if_flags st = change_flags (\<lambda>x. x AND NOT IFF_PROMISC)
    (ifr_name ` {a \<in> set names. settable (sys_may_set sys) flags a}) flags"
proof -
  obtain st1 where st1: "set_promisc_all (sys_may_set sys) names
      \<lparr>if_flags = flags, promisc_interfaces = [], nic_log = []\<rparr> = Inr st1"
    using assms by (auto simp: sniffer_main_def Let_def split: sum.splits)
  have "\<exists>l. st = cleanup_interfaces (sys_may_set sys) (st1\<lparr>nic_log := l\<rparr>)"
  proof (cases "fopen_ok sys")
    case True
    then have "st = cleanup_interfaces (sys_may_set sys) (st1\<lparr>nic_log := nic_log st1\<rparr>)"
      using assms st1 by (auto simp: sniffer_main_def Let_def split: turn.splits)
    then show ?thesis by blast
  qed (use assms st1 in \<open>auto simp: sniffer_main_def Let_def\<close>)
  with cleanup_after_set [OF st1] show ?thesis by auto
qed

theorem sniffer_restores_interfaces_witness:
  "\<exists>st c. sniffer_main \<lparr>socket_ok = True, nameindex = Some [''lo'', ''eth0''], sys_may_set = (\<lambda>_. True), fopen_ok = False,
       time0 = 0\<rparr> [''sniffer''] [] [''lo'' \<mapsto> 0x49, ''eth0'' \<mapsto> 0x43] = Inr (Some (st, c, 0)) \<and>
     if_flags st ''eth0'' = Some 0x43 \<and> if_flags st ''lo'' = Some 0x49"
proof -
  let ?sys = "\<lparr>socket_ok = True, nameindex = Some [''lo'', ''eth0''], sys_may_set = (\<lambda>_. True), fopen_ok = False, time0 = 0\<rparr>"
  have name: "ifr_name ''eth0'' = ''eth0''" by code_simp
  obtain st1 where "set_promisc_all (\<lambda>_. True) [''eth0'']
      \<lparr>if_flags = [''lo'' \<mapsto> 0x49, ''eth0'' \<mapsto> 0x43], promisc_interfaces = [], nic_log = []\<rparr> = Inr st1"
    by (simp add: set_promisc_def name MAX_IF_def)
  then obtain st c where run:
    "sniffer_main ?sys [''sniffer''] [] [''lo'' \<mapsto> 0x49, ''eth0'' \<mapsto> 0x43] = Inr (Some (st, c, 0))"
    by (simp add: sniffer_main_def chosen_interfaces_def del: set_promisc_all.simps)
  from sniffer_restores_interfaces [OF this, of "[''eth0'']"]
  have "if_flags st = change_flags (\<lambda>x. x AND NOT IFF_PROMISC)
      (ifr_name ` {a \<in> set [''eth0'']. settable (\<lambda>_. True) [''lo'' \<mapsto> 0x49, ''eth0'' \<mapsto> 0x43] a}) [''lo'' \<mapsto> 0x49, ''eth0'' \<mapsto> 0x43]"
    by (simp add: chosen_interfaces_def)
  then have "if_flags st ''eth0'' = Some 0x43" "if_flags st ''lo'' = Some 0x49"
    by (auto simp: change_flags_def settable_def name IFF_PROMISC_def)
  with run show ?thesis by blast
qed

text \<open>
  The table of switched interfaces: switching on a list of interfaces sets the promiscuous bit of
  exactly those that exist and may be changed, records them in order and reports each of the others;
  with more than 32 of them the program writes outside the table.
\<close>

lemma sniffer_interface_table:
  "set_promisc_all may_set names \<lparr>if_flags = flags, promisc_interfaces = [], nic_log = []\<rparr> =
     (let ok = filter (settable may_set flags) names in
      if length ok \<le> 32
      then Inr \<lparr>if_flags = change_flags (\<lambda>x. x OR IFF_PROMISC) (ifr_name ` set ok) flags,
                promisc_interfaces = ok, nic_log = replicate (length names - length ok) (Perror ''ioctl'')\<rparr>
      else Inl OutOfBounds)"
  by (simp add: set_promisc_all_eq MAX_IF_def Let_def)

text \<open>
  (C27) A signal stops the capture: whenever it arrives in a turn, the loop is left in that turn or at the
  head of the next one, with no frame of a later turn written, and the file left behind is a valid
  capture; but the turn in which it arrives has to finish, which means that \<open>recvfrom\<close> has to return.
\<close>

theorem sniffer_stops_after_signal:
  assumes "sig_head sg \<or> sig_recv sg \<or> sig_late sg"
  shows "(\<forall>s'. run_turns (sig_turn argv) (pre @ (sg, rd) # x # post) \<lparr>keep_running = True, cap = capture_start t0\<rparr> \<noteq> Goes s') \<and>
    (\<forall>s'. run_turns (sig_turn argv) (pre @ (sg, rd) # x # post) \<lparr>keep_running = True, cap = capture_start t0\<rparr> = Ends s' \<longrightarrow>
       read_pcap (disk (cap s')) \<noteq> None) \<and>
    (\<forall>s s1. sig_turn argv (sg, rd) s = Goes s1 \<longrightarrow> (\<exists>s2. sig_turn argv x s1 = Ends s2 \<and> disk (cap s2) = disk (cap s1)))"
proof -
  have "valid_capture (cap s')"
    if "run_turns (sig_turn argv) (pre @ (sg, rd) # x # post) \<lparr>keep_running = True, cap = capture_start t0\<rparr> = Ends s'" for s'
    using sig_sniffer.run_ends [OF _ _ that] valid_capture_start by simp
  moreover have "\<exists>s2. sig_turn argv x s1 = Ends s2 \<and> disk (cap s2) = disk (cap s1)"
    if "sig_turn argv (sg, rd) s = Goes s1" for s s1
    using sig_turn_stops [of s1 argv x] sig_turn_keep [OF that] assms by auto
  ultimately show ?thesis
    using run_after_signal [OF assms] valid_capture_reads by blast
qed

theorem sniffer_stops_after_signal_witness:
  "\<exists>s'. run_turns (sig_turn [''sniffer''])
     ([] @ (\<lparr>sig_head = False, sig_recv = True, sig_late = False\<rparr>, demo_frame_round 10 [1, 2] ''eth0'') #
      (\<lparr>sig_head = False, sig_recv = False, sig_late = False\<rparr>, demo_frame_round 11 [3] ''eth0'') # [])
     \<lparr>keep_running = True, cap = capture_start 0\<rparr> = Ends s' \<and> read_pcap (disk (cap s')) \<noteq> None"
proof -
  let ?sg = "\<lparr>sig_head = False, sig_recv = True, sig_late = False\<rparr>"
  have "\<exists>s'. run_turns (sig_turn [''sniffer''])
     ([] @ (?sg, demo_frame_round 10 [1, 2] ''eth0'') #
      (\<lparr>sig_head = False, sig_recv = False, sig_late = False\<rparr>, demo_frame_round 11 [3] ''eth0'') # [])
     \<lparr>keep_running = True, cap = capture_start 0\<rparr> = Ends s'"
    by (simp add: sig_turn_def cap_turn_def rotate_file_def demo_frame_round_def capture_start_def TIME_ROTATION_def
        MAX_LEN_def Let_def accepts_def)
  then show ?thesis using sniffer_stops_after_signal [of ?sg "[''sniffer'']"] by fastforce
qed

end
