(* ===== verification/Http.thy ===== *)
theory Http
  imports Poll_Table C_Bytes
begin

text \<open>
  \<^verbatim>\<open>src/projects/networking/http-server/main.c\<close>: a request handler that serves one file per connection.
  \<open>regexec\<close> with the one pattern the program uses is the function \<open>request_target\<close>; the file system
  is a parameter, and so is how many bytes each \<open>read\<close> returns.
\<close>

definition BUFFER_SIZE :: nat where "BUFFER_SIZE = 52428800"

subsection \<open>The request line\<close>

text \<open>
  The group of \<^verbatim>\<open>^GET /([^ ]*) HTTP/1\<close>: it cannot contain a space and must be followed by one, so it is
  the longest run of other characters after the slash.
\<close>

definition starts_with :: "string \<Rightarrow> string \<Rightarrow> bool" where
  "starts_with p s \<longleftrightarrow> take (length p) s = p"

definition request_target :: "string \<Rightarrow> string option" where
  "request_target s =
     (if starts_with ''GET /'' s then
        (let r = drop 5 s in
         if starts_with '' HTTP/1'' (dropWhile (\<lambda>c. c \<noteq> SP) r) then Some (takeWhile (\<lambda>c. c \<noteq> SP) r) else None)
      else None)"

text \<open>
  \<open>recv\<close> fills the front of the \<open>malloc\<close>ed buffer and terminates nothing: the string the program then
  reads goes on into what the buffer held, and past its end if there is no NUL.
\<close>

definition buffer_string :: "string \<Rightarrow> string \<Rightarrow> string cres" where
  "buffer_string req garbage =
     (if NUL \<in> set (req @ garbage) then Inr (cstr (req @ garbage)) else Inl OutOfBounds)"

subsection \<open>Names\<close>

definition hex_val :: "char \<Rightarrow> int option" where
  "hex_val c =
     (if isdigit c then Some (int (ord c) - 48)
      else if 65 \<le> ord c \<and> ord c \<le> 70 then Some (int (ord c) - 55)
      else if 97 \<le> ord c \<and> ord c \<le> 102 then Some (int (ord c) - 87)
      else None)"

text \<open>
  \<open>sscanf(s, "%2x", &hex)\<close>: white space is skipped, then at most two characters are read as an optional
  sign and hexadecimal digits; \<open>None\<close> is a failed conversion, which leaves \<open>hex\<close> as it was (a bare
  prefix \<open>0x\<close> is one).
\<close>

definition sscanf_2x :: "string \<Rightarrow> int option" where
  "sscanf_2x s =
     (case dropWhile isspace s of
        [] \<Rightarrow> None
      | c # cs \<Rightarrow>
          if c = CHR ''-'' \<or> c = CHR ''+'' then
            (case cs of
               [] \<Rightarrow> None
             | d # _ \<Rightarrow> map_option (\<lambda>v. if c = CHR ''-'' then - v else v) (hex_val d))
          else
            (case hex_val c of
               None \<Rightarrow> None
             | Some v \<Rightarrow>
                 (case cs of
                    [] \<Rightarrow> Some v
                  | d # _ \<Rightarrow>
                      if c = CHR ''0'' \<and> (d = CHR ''x'' \<or> d = CHR ''X'') then None
                      else (case hex_val d of None \<Rightarrow> Some v | Some w \<Rightarrow> Some (16 * v + w)))))"

fun get_filename :: "string \<Rightarrow> string cres" where
  "get_filename [] = Inr []"
| "get_filename (c # cs) =
     (if c = CHR ''%'' \<and> 2 < length (c # cs) then
        (case sscanf_2x cs of
           None \<Rightarrow> Inl UninitRead
         | Some hex \<Rightarrow>
             (case get_filename (drop 2 cs) of
                Inl u \<Rightarrow> Inl u
              | Inr r \<Rightarrow> Inr (char_of (nat (hex mod 256)) # r)))
      else (case get_filename cs of Inl u \<Rightarrow> Inl u | Inr r \<Rightarrow> Inr (c # r)))"

definition after_last_point :: "string \<Rightarrow> string" where
  "after_last_point s = rev (takeWhile (\<lambda>c. c \<noteq> CHR ''.'') (rev s))"

text \<open>\<open>strrchr\<close> finds the last point; none, or one at the very front, gives the empty extension.\<close>

definition get_extension :: "string \<Rightarrow> string" where
  "get_extension url_file =
     (if CHR ''.'' \<notin> set url_file \<or> length (after_last_point url_file) = length url_file - 1 then ''''
      else after_last_point url_file)"

definition get_mime :: "string \<Rightarrow> string" where
  "get_mime extension =
     (if strcasecmp_eq extension ''html'' then ''text/html''
      else if strcasecmp_eq extension ''txt'' then ''text/plain''
      else if strcasecmp_eq extension ''jpg'' \<or> strcasecmp_eq extension ''jpeg'' then ''image/jpeg''
      else if strcasecmp_eq extension ''png'' then ''image/png''
      else ''application/octet-stream'')"

subsection \<open>The response\<close>

abbreviation CRLF :: string where "CRLF \<equiv> [CHR 0x0D, CHR 0x0A]"

text \<open>What \<open>open\<close> and \<open>read\<close> make of a name: no file, a file whose \<open>read\<close> fails (a directory), or contents.\<close>

datatype opened = NotFound | Unreadable | Content string

text \<open>
  The read loop: \<open>chunk\<close> bounds what one \<open>read\<close> returns at an offset; it returns at least one byte unless
  the file or the space is used up.
\<close>

function read_loop :: "(nat \<Rightarrow> nat) \<Rightarrow> string \<Rightarrow> string \<Rightarrow> string" where
  "read_loop chunk response body =
     (let red = min (max 1 (chunk (length response))) (min (BUFFER_SIZE - length response) (length body))
      in if red = 0 then response else read_loop chunk (response @ take red body) (drop red body))"
  by pat_completeness auto
termination by (relation "measure (\<lambda>(_, _, body). length body)") auto

declare read_loop.simps [simp del]

definition not_found :: string where
  "not_found = ''HTTP/1.1 404 Not Found'' @ CRLF @ ''Content-Type: text/plain'' @ CRLF @ CRLF @ ''404 Not Found''"

definition ok_header :: "string \<Rightarrow> string" where
  "ok_header mime_type = ''HTTP/1.1 200 OK'' @ CRLF @ ''Content-Type: '' @ mime_type @ CRLF @ CRLF"

definition build_http :: "(string \<Rightarrow> opened) \<Rightarrow> (nat \<Rightarrow> nat) \<Rightarrow> string \<Rightarrow> string \<Rightarrow> string" where
  "build_http fs chunk file extension =
     (let mime_type = get_mime extension in
      case fs file of
        NotFound \<Rightarrow> not_found
      | Unreadable \<Rightarrow> ok_header mime_type
      | Content body \<Rightarrow> read_loop chunk (ok_header mime_type) body)"

subsection \<open>The handler\<close>

datatype reply = NoReply | Reply string

definition EXTENSION_SIZE :: nat where "EXTENSION_SIZE = 32"

definition respond :: "(string \<Rightarrow> opened) \<Rightarrow> (nat \<Rightarrow> nat) \<Rightarrow> string \<Rightarrow> reply cres" where
  "respond fs chunk url_file =
     (case get_filename url_file of
        Inl u \<Rightarrow> Inl u
      | Inr file \<Rightarrow>
          if length (get_extension url_file) < EXTENSION_SIZE
          then Inr (Reply (build_http fs chunk (cstr file) (get_extension url_file)))
          else Inl OutOfBounds)"

text \<open>\<open>handler\<close> up to the \<open>send\<close>; \<open>received\<close> is \<open>None\<close> when \<open>recv\<close> returns nothing.\<close>

definition handler ::
  "(string \<Rightarrow> opened) \<Rightarrow> (nat \<Rightarrow> nat) \<Rightarrow> bool \<Rightarrow> string \<Rightarrow> string option \<Rightarrow> reply cres" where
  "handler fs chunk malloc_ok garbage received =
     (if \<not> malloc_ok then Inr NoReply
      else case received of
        None \<Rightarrow> Inr NoReply
      | Some req \<Rightarrow>
          (case buffer_string req garbage of
             Inl u \<Rightarrow> Inl u
           | Inr s \<Rightarrow> (case request_target s of None \<Rightarrow> Inr NoReply | Some url \<Rightarrow> respond fs chunk url)))"

subsection \<open>The accept loop\<close>

datatype accept_result = Accepted int | AcceptIntr | AcceptFail

record accept_round =
  stopping :: bool            \<comment> \<open>\<open>keep_running\<close> is 0 at the loop head\<close>
  malloc_fd_ok :: bool
  accept_res :: accept_result
  thread_ok :: bool

datatype http_event = HIo io | HClose int | HThread int

definition PORT :: nat where "PORT = 8080"

definition IP :: string where "IP = ''127.0.0.1''"

definition http_address :: "(string \<Rightarrow> u32) \<Rightarrow> sockaddr_in" where
  "http_address inet_addr =
     \<lparr>sin_family = AF_INET, sin_port = htons (word_of_nat PORT), sin_addr = inet_addr IP\<rparr>"

definition create :: "(sockaddr_in \<Rightarrow> bool) \<Rightarrow> bool \<Rightarrow> (string \<Rightarrow> u32) \<Rightarrow> http_event list \<times> int" where
  "create bind_ok listen_ok inet_addr =
     (if \<not> bind_ok (http_address inet_addr) then ([HIo (Perror ''bind'')], 1)
      else if \<not> listen_ok then ([HIo (Perror ''listen'')], 1)
      else ([HIo (Out (''Listening on port '' @ show_nat PORT @ [NL]))], 0))"

definition accept_turn :: "accept_round \<Rightarrow> http_event list \<Rightarrow> http_event list turn" where
  "accept_turn rd lg =
     (if stopping rd then Ends lg
      else if \<not> malloc_fd_ok rd then Ends (lg @ [HIo (Perror ''malloc'')])
      else case accept_res rd of
        AcceptIntr \<Rightarrow> Ends (lg @ [HIo (Perror ''accept'')])
      | AcceptFail \<Rightarrow> Goes (lg @ [HIo (Perror ''accept'')])
      | Accepted fd \<Rightarrow>
          if thread_ok rd then Goes (lg @ [HThread fd])
          else Goes (lg @ [HIo (Perror ''pthread_create''), HClose fd]))"

definition http_main ::
  "int \<Rightarrow> (sockaddr_in \<Rightarrow> bool) \<Rightarrow> bool \<Rightarrow> (string \<Rightarrow> u32) \<Rightarrow> accept_round list \<Rightarrow> (http_event list \<times> int) option" where
  "http_main socket_fd bind_ok listen_ok inet_addr rds =
     (if socket_fd < 0 then Some ([HIo (Perror ''socket'')], 1)
      else case create bind_ok listen_ok inet_addr of (es, r) \<Rightarrow>
        if r = 1 then Some (es @ [HClose socket_fd], 1)
        else (case run_turns accept_turn rds es of
                Ends lg \<Rightarrow> Some (lg @ [HClose socket_fd], 0)
              | _ \<Rightarrow> None))"

subsection \<open>Percent encoding\<close>

text \<open>The encoding of RFC 3986 with the slash kept: unreserved characters stand for themselves.\<close>

definition unreserved :: "char \<Rightarrow> bool" where
  "unreserved c \<longleftrightarrow> isalpha c \<or> isdigit c \<or> c \<in> {CHR ''-'', CHR ''.'', CHR ''_'', CHR ''~'', CHR ''/''}"

definition pct :: "char \<Rightarrow> string" where
  "pct c = (if unreserved c then [c] else [CHR ''%'', digit_char (ord c div 16), digit_char (ord c mod 16)])"

definition pct_encode :: "string \<Rightarrow> string" where
  "pct_encode s = concat (map pct s)"

lemma ord_less: "ord c < 256"
  using unat_u8_less [of "byte_of_char c"] by (simp del: unat_u8_less)

lemma ord_div_16: "ord (c :: char) div 16 < 16" and ord_mod_16: "ord (c :: char) mod 16 < 16"
  using ord_less [of c] by (simp_all add: less_mult_imp_div_less)

lemma hex_val_digit_char: "d < 16 \<Longrightarrow> hex_val (digit_char d) = Some (int d)"
  by (simp add: hex_val_def isdigit_def ord_digit_char)

lemma digit_char_not_other:
  "d < 16 \<Longrightarrow> \<not> isspace (digit_char d) \<and> digit_char d \<noteq> CHR ''-'' \<and> digit_char d \<noteq> CHR ''+'' \<and>
     digit_char d \<noteq> CHR ''x'' \<and> digit_char d \<noteq> CHR ''X'' \<and> digit_char d \<noteq> SP \<and> digit_char d \<noteq> NUL"
proof -
  assume "d < 16"
  then have "ord (digit_char d) = (if d < 10 then 48 + d else 55 + d)" by (simp add: ord_digit_char)
  with \<open>d < 16\<close> have "ord (digit_char d) \<notin> {9, 10, 11, 12, 13, 32, 45, 43, 120, 88, 0}"
    "\<not> (9 \<le> ord (digit_char d) \<and> ord (digit_char d) \<le> 13)" by auto
  then show ?thesis by (auto simp: isspace_def)
qed

lemma sscanf_digits:
  assumes "a < 16" "b < 16"
  shows "sscanf_2x (digit_char a # digit_char b # rest) = Some (16 * int a + int b)"
  using assms digit_char_not_other [of a] digit_char_not_other [of b]
  by (simp add: sscanf_2x_def hex_val_digit_char)

lemma get_filename_plain: "CHR ''%'' \<notin> set u \<Longrightarrow> get_filename (u @ v) =
    (case get_filename v of Inl e \<Rightarrow> Inl e | Inr r \<Rightarrow> Inr (u @ r))"
  by (induction u) (auto split: sum.splits)

lemma unreserved_not_special: "\<not> unreserved (CHR ''%'')" "\<not> unreserved SP" "\<not> unreserved NUL"
  by code_simp+

lemma get_filename_pct: "get_filename (pct c @ v) = (case get_filename v of Inl e \<Rightarrow> Inl e | Inr r \<Rightarrow> Inr (c # r))"
proof (cases "unreserved c")
  case True
  then have "c \<noteq> CHR ''%''" using unreserved_not_special by auto
  with True show ?thesis by (simp add: pct_def)
next
  case False
  have "16 * (ord c div 16) + ord c mod 16 = ord c" by (rule mult_div_mod_eq)
  then have "16 * int (ord c div 16) + int (ord c mod 16) = int (ord c)" by linarith
  then have "(16 * int (ord c div 16) + int (ord c mod 16)) mod 256 = int (ord c)"
    using ord_less [of c] by simp
  with False show ?thesis
    using sscanf_digits [OF ord_div_16 [of c] ord_mod_16 [of c]] by (simp add: pct_def split: sum.splits)
qed

lemma get_filename_pct_encode: "get_filename (pct_encode s) = Inr s"
  by (induction s) (simp_all add: pct_encode_def get_filename_pct)

lemma pct_encode_clean: "SP \<notin> set (pct_encode s) \<and> NUL \<notin> set (pct_encode s)"
proof -
  have "SP \<notin> set (pct c) \<and> NUL \<notin> set (pct c)" for c
    using digit_char_not_other [OF ord_div_16 [of c]] digit_char_not_other [OF ord_mod_16 [of c]]
      unreserved_not_special by (auto simp: pct_def)
  then show ?thesis by (auto simp: pct_encode_def)
qed

lemma get_filename_length: "get_filename u = Inr r \<Longrightarrow> length r \<le> length u"
proof (induction u arbitrary: r rule: get_filename.induct)
  case (2 c cs)
  show ?case
  proof (cases "c = CHR ''%'' \<and> 2 < length (c # cs)")
    case True
    with "2.prems" obtain h r' where h: "sscanf_2x cs = Some h" "get_filename (drop 2 cs) = Inr r'"
      "length r = Suc (length r')"
      by (auto split: option.splits sum.splits)
    then show ?thesis using "2.IH"(1) [OF True h(1,2)] by simp
  next
    case False
    with "2.prems" obtain r' where r': "get_filename cs = Inr r'" "r = c # r'" by (auto split: sum.splits)
    then show ?thesis using "2.IH"(2) [OF False r'(1)] by simp
  qed
qed simp

subsection \<open>Reading and matching\<close>

lemma read_loop_eq:
  "read_loop chunk response body = response @ take (BUFFER_SIZE - length response) body"
proof (induction chunk response body rule: read_loop.induct)
  case (1 chunk response body)
  define red where "red = min (max 1 (chunk (length response))) (min (BUFFER_SIZE - length response) (length body))"
  show ?case
  proof (cases "red = 0")
    case True
    then have "BUFFER_SIZE - length response = 0 \<or> body = []" unfolding red_def min_def by (auto split: if_splits)
    moreover have "read_loop chunk response body = response"
      using True by (subst read_loop.simps) (simp only: Let_def red_def refl if_True)
    ultimately show ?thesis by (elim disjE) simp_all
  next
    case False
    have "red \<le> BUFFER_SIZE - length response" "red \<le> length body" by (simp_all add: red_def)
    then have "take red body @ take (BUFFER_SIZE - length response - red) (drop red body) =
        take (BUFFER_SIZE - length response) body"
      by (metis add_diff_inverse_nat not_less take_add)
    moreover have "read_loop chunk response body = read_loop chunk (response @ take red body) (drop red body)"
      using False by (subst read_loop.simps) (simp only: Let_def red_def if_False)
    ultimately show ?thesis
      using "1.IH" [OF red_def False] \<open>red \<le> length body\<close> by simp
  qed
qed

lemma request_target_GET:
  "SP \<notin> set url \<Longrightarrow> request_target (''GET /'' @ url @ '' HTTP/1'' @ rest) = Some url"
proof -
  assume "SP \<notin> set url"
  then have "\<forall>c \<in> set url. c \<noteq> SP" by auto
  then show ?thesis
    by (simp add: request_target_def starts_with_def Let_def takeWhile_append_stop dropWhile_append_stop)
qed

lemma cstr_append: "NUL \<notin> set u \<Longrightarrow> cstr (u @ v) = u @ cstr v"
  by (induction u) (auto simp: cstr_def)

lemma buffer_string_GET:
  assumes "NUL \<notin> set url" and "NUL \<in> set (rest @ garbage)"
  shows "\<exists>r. buffer_string (''GET /'' @ url @ '' HTTP/1'' @ rest) garbage = Inr (''GET /'' @ url @ '' HTTP/1'' @ r)"
proof -
  have "cstr ((''GET /'' @ url @ '' HTTP/1'') @ rest @ garbage) = (''GET /'' @ url @ '' HTTP/1'') @ cstr (rest @ garbage)"
    by (rule cstr_append) (simp add: assms(1))
  with assms(2) show ?thesis by (auto simp: buffer_string_def)
qed

lemma handler_GET:
  assumes "SP \<notin> set url" and "NUL \<notin> set url" and "NUL \<in> set (rest @ garbage)"
  shows "handler fs chunk True garbage (Some (''GET /'' @ url @ '' HTTP/1'' @ rest)) = respond fs chunk url"
proof -
  obtain r where "buffer_string (''GET /'' @ url @ '' HTTP/1'' @ rest) garbage = Inr (''GET /'' @ url @ '' HTTP/1'' @ r)"
    using buffer_string_GET [OF assms(2,3)] by blast
  then show ?thesis using request_target_GET [OF assms(1), of r] by (simp add: handler_def)
qed

text \<open>An accepted connection is handed to a thread or closed, and is never dropped.\<close>

lemma accept_turn_hands_over:
  "accept_turn rd lg = Goes lg' \<Longrightarrow> accept_res rd = Accepted fd \<Longrightarrow>
     \<exists>es. lg' = lg @ es \<and> (if thread_ok rd then es = [HThread fd] else HClose fd \<in> set es)"
  by (auto simp: accept_turn_def split: if_splits)

subsection \<open>Properties\<close>



text \<open>
  (C26) Names: decoding inverts percent encoding for every byte string, and the decoded name is never
  longer than the encoded one, so the \<open>len + 1\<close> bytes allocated for it are enough.
\<close>

theorem get_filename_roundtrip:
  "get_filename (pct_encode s) = Inr s \<and> (\<forall>u r. get_filename u = Inr r \<longrightarrow> length r \<le> length u)"
  by (simp add: get_filename_pct_encode get_filename_length)

theorem get_filename_roundtrip_witness:
  "get_filename (pct_encode ''a b'') = Inr ''a b'' \<and> length ''a b'' \<le> length (pct_encode ''a b'')"
  using get_filename_roundtrip [of "''a b''"] by blast

text \<open>
  (C29) Requests that break the handler: an extension of 32 characters or more is copied past the array
  it goes to, and for a name without escapes that is the only case; a percent sign followed by
  something that is no hexadecimal number makes the program use an uninitialised variable; and a
  request whose buffer holds no NUL is read past its end.
\<close>

theorem http_fatal_requests:
  assumes "SP \<notin> set url" and "NUL \<notin> set url" and "NUL \<in> set (rest @ garbage)"
  shows "(CHR ''%'' \<notin> set url \<longrightarrow>
      (handler fs chunk True garbage (Some (''GET /'' @ url @ '' HTTP/1'' @ rest)) = Inl OutOfBounds \<longleftrightarrow>
       32 \<le> length (get_extension url)))
    \<and> (\<forall>pre c d post. url = pre @ CHR ''%'' # c # d # post \<and> CHR ''%'' \<notin> set pre \<and> hex_val c = None \<and>
         \<not> isspace c \<and> c \<notin> {CHR ''+'', CHR ''-''} \<longrightarrow>
       handler fs chunk True garbage (Some (''GET /'' @ url @ '' HTTP/1'' @ rest)) = Inl UninitRead)
    \<and> (\<forall>req. NUL \<notin> set req \<longrightarrow> handler fs chunk True [] (Some req) = Inl OutOfBounds)"
proof (intro conjI impI allI)
  assume "CHR ''%'' \<notin> set url"
  then have "get_filename url = Inr url" using get_filename_plain [of url "[]"] by simp
  then show "handler fs chunk True garbage (Some (''GET /'' @ url @ '' HTTP/1'' @ rest)) = Inl OutOfBounds \<longleftrightarrow>
      32 \<le> length (get_extension url)"
    unfolding handler_GET [OF assms] by (simp add: respond_def EXTENSION_SIZE_def not_less)
next
  fix pre c d post
  assume u: "url = pre @ CHR ''%'' # c # d # post \<and> CHR ''%'' \<notin> set pre \<and> hex_val c = None \<and>
      \<not> isspace c \<and> c \<notin> {CHR ''+'', CHR ''-''}"
  then have "sscanf_2x (c # d # post) = None" by (simp add: sscanf_2x_def)
  then have "get_filename url = Inl UninitRead"
    using u get_filename_plain [of pre "CHR ''%'' # c # d # post"] by simp
  then show "handler fs chunk True garbage (Some (''GET /'' @ url @ '' HTTP/1'' @ rest)) = Inl UninitRead"
    unfolding handler_GET [OF assms] by (simp add: respond_def)
qed (simp add: handler_def buffer_string_def)

theorem http_fatal_requests_witness:
  "handler (\<lambda>_. NotFound) (\<lambda>_. 1) True [NUL] (Some (''GET /'' @ ''a%zz'' @ '' HTTP/1'' @ [])) = Inl UninitRead \<and>
   handler (\<lambda>_. NotFound) (\<lambda>_. 1) True [] (Some ''GET'') = Inl OutOfBounds"
proof -
  have z: "hex_val (CHR ''z'') = None" "\<not> isspace (CHR ''z'')" by code_simp+
  have u: "''a%zz'' = ''a'' @ CHR ''%'' # CHR ''z'' # CHR ''z'' # []" by simp
  note fatal = http_fatal_requests [of "''a%zz''" "[]" "[NUL]" "\<lambda>_. NotFound" "\<lambda>_. 1", THEN conjunct2]
  have "handler (\<lambda>_. NotFound) (\<lambda>_. 1) True [NUL] (Some (''GET /'' @ ''a%zz'' @ '' HTTP/1'' @ [])) = Inl UninitRead"
    by (rule fatal [THEN conjunct1, rule_format, of "''a''" "CHR ''z''" "CHR ''z''" "[]"]) (use z u in auto)
  moreover have "handler (\<lambda>_. NotFound) (\<lambda>_. 1) True [] (Some ''GET'') = Inl OutOfBounds"
    by (rule fatal [THEN conjunct2, rule_format]) auto
  ultimately show ?thesis by blast
qed

end
