(* ===== verification/Http_Threads.thy ===== *)
theory Http_Threads
  imports Http Scheduler
begin

text \<open>
  \<^verbatim>\<open>src/projects/networking/http-server/main.c\<close> with its threads: the accept loop of \<open>main\<close>, one detached
  thread per connection running \<open>handler\<close>, and the signal handler, interleaved at the granularity of
  the operations they share: the heap cell through which \<open>main\<close> hands the descriptor to the thread, the
  process's descriptor table, and the connections behind it.
\<close>

subsection \<open>State\<close>

text \<open>The \<open>int\<close> that \<open>main\<close> allocates for each \<open>accept\<close>.\<close>

datatype cell = Free | Uninit | Holds int

datatype main_pc =
    AtHead                     \<comment> \<open>the loop condition and \<open>malloc\<close>\<close>
  | AtAccept nat               \<comment> \<open>in \<open>accept\<close>, with the cell allocated\<close>
  | AtCreate nat               \<comment> \<open>before \<open>pthread_create\<close>\<close>
  | AtExit                     \<comment> \<open>after the loop\<close>
  | Exited

datatype thread_pc =
    TStart nat                 \<comment> \<open>before \<open>*((int *)arg)\<close> is read\<close>
  | TLoaded nat int            \<comment> \<open>before \<open>free(arg)\<close>\<close>
  | TRun int                   \<comment> \<open>before \<open>malloc(BUFFER_SIZE)\<close>\<close>
  | TRecv int string           \<comment> \<open>in \<open>recv\<close>, with what the buffer held\<close>
  | TSend int reply            \<comment> \<open>the response is built\<close>
  | TClose int
  | TDone

text \<open>A thread, and the connection it was started for, which the code does not know.\<close>

record thread =
  pc :: thread_pc
  for_conn :: nat

text \<open>
  Connections are numbered in the order they are accepted; \<open>fdtab\<close> is the part of the descriptor table
  that holds them.  \<open>replies\<close> is what has been sent on each of them, \<open>dropped\<close> the connections that were
  closed because no thread could be started, and \<open>bad_fd\<close> is set when a closed descriptor is used.
\<close>

record http =
  keep_running :: bool
  main_pc :: main_pc
  cells :: "nat \<Rightarrow> cell"
  next_cell :: nat
  threads :: "thread list"
  fdtab :: "int \<Rightarrow> nat option"
  nconn :: nat
  replies :: "nat \<Rightarrow> string list"
  dropped :: "nat list"
  hlog :: "http_event list"
  bad_fd :: bool
  fatal :: "ub option"

definition http_start :: "http_event list \<Rightarrow> http" where
  "http_start es =
     \<lparr>keep_running = True, main_pc = AtHead, cells = (\<lambda>_. Free), next_cell = 0, threads = [], fdtab = (\<lambda>_. None),
      nconn = 0, replies = (\<lambda>_. []), dropped = [], hlog = es, bad_fd = False, fatal = None\<rparr>"

definition emit :: "http_event list \<Rightarrow> http \<Rightarrow> http" where
  "emit es S = S\<lparr>hlog := hlog S @ es\<rparr>"

subsection \<open>Main\<close>

definition signal_handler :: "http \<Rightarrow> http" where
  "signal_handler S = S\<lparr>keep_running := False\<rparr>"

text \<open>\<open>close\<close> of a connection's descriptor.\<close>

definition close_fd :: "int \<Rightarrow> http \<Rightarrow> http" where
  "close_fd fd S =
     (if fdtab S fd = None then S\<lparr>bad_fd := True\<rparr> else emit [HClose fd] (S\<lparr>fdtab := (fdtab S)(fd := None)\<rparr>))"

definition free_cell :: "nat \<Rightarrow> http \<Rightarrow> http" where
  "free_cell a S =
     (if cells S a = Free then S\<lparr>fatal := Some UseAfterFree\<rparr> else S\<lparr>cells := (cells S)(a := Free)\<rparr>)"

text \<open>\<open>*client_fd\<close>, given to what comes next.\<close>

definition with_cell :: "nat \<Rightarrow> (int \<Rightarrow> http \<Rightarrow> http) \<Rightarrow> http \<Rightarrow> http" where
  "with_cell a f S =
     (case cells S a of
        Holds fd \<Rightarrow> f fd S
      | Uninit \<Rightarrow> S\<lparr>fatal := Some UninitRead\<rparr>
      | Free \<Rightarrow> S\<lparr>fatal := Some UseAfterFree\<rparr>)"

text \<open>
  One operation of \<open>main\<close>, with the answers of its calls; what \<open>stopping\<close> stands for in a sequential turn
  is the variable \<open>keep_running\<close> here.
\<close>

definition main_step :: "int \<Rightarrow> accept_round \<Rightarrow> http \<Rightarrow> http" where
  "main_step socket_fd rd S =
     (case main_pc S of
        AtHead \<Rightarrow>
          if \<not> keep_running S then S\<lparr>main_pc := AtExit\<rparr>
          else if \<not> malloc_fd_ok rd then emit [HIo (Perror ''malloc'')] (S\<lparr>main_pc := AtExit\<rparr>)
          else S\<lparr>main_pc := AtAccept (next_cell S), cells := (cells S)(next_cell S := Uninit),
                 next_cell := next_cell S + 1\<rparr>
      | AtAccept a \<Rightarrow>
          (case accept_res rd of
             Accepted fd \<Rightarrow>
               S\<lparr>main_pc := AtCreate a, cells := (cells S)(a := Holds fd),
                 fdtab := (fdtab S)(fd \<mapsto> nconn S), nconn := nconn S + 1\<rparr>
           | AcceptIntr \<Rightarrow> free_cell a (emit [HIo (Perror ''accept'')] (S\<lparr>main_pc := AtExit\<rparr>))
           | AcceptFail \<Rightarrow> free_cell a (emit [HIo (Perror ''accept'')] (S\<lparr>main_pc := AtHead\<rparr>)))
      | AtCreate a \<Rightarrow>
          with_cell a (\<lambda>fd S.
            if thread_ok rd then
              emit [HThread fd]
                (S\<lparr>main_pc := AtHead, threads := threads S @ [\<lparr>pc = TStart a, for_conn = the (fdtab S fd)\<rparr>]\<rparr>)
            else
              free_cell a (close_fd fd (emit [HIo (Perror ''pthread_create'')]
                (S\<lparr>main_pc := AtHead, dropped := the (fdtab S fd) # dropped S\<rparr>)))) S
      | AtExit \<Rightarrow> emit [HClose socket_fd] (S\<lparr>main_pc := Exited\<rparr>)
      | Exited \<Rightarrow> S)"

subsection \<open>A handler thread\<close>

definition set_pc :: "nat \<Rightarrow> thread_pc \<Rightarrow> http \<Rightarrow> http" where
  "set_pc t p S = S\<lparr>threads := (threads S)[t := (threads S ! t)\<lparr>pc := p\<rparr>]\<rparr>"

definition reply_list :: "reply \<Rightarrow> string list" where
  "reply_list r = (case r of NoReply \<Rightarrow> [] | Reply s \<Rightarrow> [s])"

text \<open>
  One operation of thread \<open>t\<close>.  \<open>req\<close> is what \<open>recv\<close> gives on each connection; whether the buffer can be
  allocated and what it holds then are answers of the step.
\<close>

definition thread_step ::
  "(string \<Rightarrow> opened) \<Rightarrow> (nat \<Rightarrow> nat) \<Rightarrow> (nat \<Rightarrow> string option) \<Rightarrow> bool \<Rightarrow> string \<Rightarrow> nat \<Rightarrow> http \<Rightarrow> http" where
  "thread_step fs chunk req malloc_ok garbage t S =
     (case pc (threads S ! t) of
        TStart a \<Rightarrow> with_cell a (\<lambda>fd. set_pc t (TLoaded a fd)) S
      | TLoaded a fd \<Rightarrow> free_cell a (set_pc t (TRun fd) S)
      | TRun fd \<Rightarrow> set_pc t (if malloc_ok then TRecv fd garbage else TClose fd) S
      | TRecv fd g \<Rightarrow>
          (case fdtab S fd of
             None \<Rightarrow> set_pc t (TClose fd) (S\<lparr>bad_fd := True\<rparr>)
           | Some n \<Rightarrow>
               (case handler fs chunk True g (req n) of
                  Inl u \<Rightarrow> S\<lparr>fatal := Some u\<rparr>
                | Inr r \<Rightarrow> set_pc t (TSend fd r) S))
      | TSend fd r \<Rightarrow>
          (case fdtab S fd of
             None \<Rightarrow> set_pc t (TClose fd) (S\<lparr>bad_fd := True\<rparr>)
           | Some n \<Rightarrow>
               set_pc t (TClose fd) (S\<lparr>replies := (replies S)(n := replies S n @ reply_list r)\<rparr>))
      | TClose fd \<Rightarrow> close_fd fd (set_pc t TDone S)
      | TDone \<Rightarrow> S)"

subsection \<open>Interleaving\<close>

text \<open>The kernel gives a new connection a descriptor that is not in use.\<close>

definition accept_ok :: "accept_round \<Rightarrow> http \<Rightarrow> bool" where
  "accept_ok rd S =
     (case main_pc S of
        AtAccept a \<Rightarrow> (case accept_res rd of Accepted fd \<Rightarrow> 0 \<le> fd \<and> fdtab S fd = None | _ \<Rightarrow> True)
      | _ \<Rightarrow> True)"

text \<open>The process runs until \<open>main\<close> returns, which ends all threads, or something fatal happens.\<close>

definition running :: "http \<Rightarrow> bool" where
  "running S \<longleftrightarrow> main_pc S \<noteq> Exited \<and> fatal S = None"

inductive http_step ::
  "int \<Rightarrow> (string \<Rightarrow> opened) \<Rightarrow> (nat \<Rightarrow> nat) \<Rightarrow> (nat \<Rightarrow> string option) \<Rightarrow> http \<Rightarrow> http \<Rightarrow> bool"
  for socket_fd :: int and fs :: "string \<Rightarrow> opened" and chunk :: "nat \<Rightarrow> nat" and req :: "nat \<Rightarrow> string option" where
  main: "running S \<Longrightarrow> accept_ok rd S \<Longrightarrow> http_step socket_fd fs chunk req S (main_step socket_fd rd S)"
| thread: "running S \<Longrightarrow> t < length (threads S) \<Longrightarrow>
    http_step socket_fd fs chunk req S (thread_step fs chunk req malloc_ok garbage t S)"
| signal: "running S \<Longrightarrow> http_step socket_fd fs chunk req S (signal_handler S)"

abbreviation http_reaches ::
  "int \<Rightarrow> (string \<Rightarrow> opened) \<Rightarrow> (nat \<Rightarrow> nat) \<Rightarrow> (nat \<Rightarrow> string option) \<Rightarrow> http \<Rightarrow> http \<Rightarrow> bool" where
  "http_reaches socket_fd fs chunk req \<equiv> (http_step socket_fd fs chunk req)\<^sup>*\<^sup>*"

subsection \<open>Who owns the heap cells\<close>

text \<open>
  Agents are \<open>main\<close> (\<open>None\<close>) and the threads.  Every allocated cell has exactly one owner, and \<open>malloc\<close>
  gives new ones.
\<close>

definition own_inv :: "('a \<Rightarrow> nat option) \<Rightarrow> (nat \<Rightarrow> cell) \<Rightarrow> nat \<Rightarrow> bool" where
  "own_inv own cs nxt \<longleftrightarrow>
     (\<forall>x y a. own x = Some a \<and> own y = Some a \<longrightarrow> x = y) \<and>
     (\<forall>a. cs a \<noteq> Free \<longleftrightarrow> (\<exists>x. own x = Some a)) \<and> (\<forall>x a. own x = Some a \<longrightarrow> a < nxt)"

lemma own_alloc: "own_inv own cs nxt \<Longrightarrow> own x = None \<Longrightarrow> own_inv (own(x := Some nxt)) (cs(nxt := Uninit)) (Suc nxt)"
  unfolding own_inv_def by (auto simp: less_Suc_eq) (metis less_irrefl option.distinct(1))+

lemma own_write: "own_inv own cs nxt \<Longrightarrow> own x = Some a \<Longrightarrow> own_inv own (cs(a := Holds fd)) nxt"
  unfolding own_inv_def by auto

lemma own_unique: "own_inv own cs nxt \<Longrightarrow> own x = Some a \<Longrightarrow> own y = Some a \<longleftrightarrow> y = x"
  unfolding own_inv_def by blast

lemma own_live: "own_inv own cs nxt \<Longrightarrow> cs a \<noteq> Free \<longleftrightarrow> (\<exists>x. own x = Some a)"
  unfolding own_inv_def by blast

lemma own_free:
  assumes inv: "own_inv own cs nxt" and x: "own x = Some a"
  shows "own_inv (own(x := None)) (cs(a := Free)) nxt"
proof -
  have "(cs(a := Free)) b \<noteq> Free \<longleftrightarrow> (\<exists>y. (own(x := None)) y = Some b)" for b
  proof (cases "b = a")
    case False
    then have "own y = Some b \<longleftrightarrow> (own(x := None)) y = Some b" for y using x by auto
    with False show ?thesis using own_live [OF inv, of b] by auto
  qed (use own_unique [OF inv x] in auto)
  with inv show ?thesis unfolding own_inv_def by (auto split: if_splits)
qed

lemma own_transfer:
  assumes inv: "own_inv own cs nxt" and x: "own x = Some a" and y: "own y = None"
  shows "own_inv (own(x := None, y := Some a)) cs nxt"
proof -
  define own' where "own' = own(x := None, y := Some a)"
  have e: "own' z = Some b \<longleftrightarrow> (if z = y then b = a else z \<noteq> x \<and> own z = Some b)" for z b
    by (auto simp: own'_def)
  have "u = v" if "own' u = Some b" "own' v = Some b" for u v b
  proof (cases "b = a")
    case True
    then have "u = y" "v = y" using that own_unique [OF inv x] unfolding e by (metis)+
    then show ?thesis by simp
  next
    case False
    then have "own u = Some b" "own v = Some b" using that unfolding e by presburger+
    then show ?thesis using own_unique [OF inv] by simp
  qed
  moreover have dom: "(\<exists>z. own' z = Some b) \<longleftrightarrow> (\<exists>z. own z = Some b)" for b
  proof (cases "b = a")
    case True
    have "own' y = Some b" "own x = Some b" using True x unfolding e by simp_all
    then show ?thesis by blast
  next
    case False
    then have "own' z = Some b \<longleftrightarrow> own z = Some b" for z using x y unfolding e by auto
    then show ?thesis by simp
  qed
  moreover have "b < nxt" if "own' u = Some b" for u b
    using dom [of b] that inv unfolding own_inv_def by blast
  ultimately show ?thesis using inv unfolding own'_def [symmetric] own_inv_def by metis
qed

fun t_cell :: "thread_pc \<Rightarrow> nat option" where
  "t_cell (TStart a) = Some a"
| "t_cell (TLoaded a fd) = Some a"
| "t_cell _ = None"

fun m_cell :: "main_pc \<Rightarrow> nat option" where
  "m_cell (AtAccept a) = Some a"
| "m_cell (AtCreate a) = Some a"
| "m_cell _ = None"

definition cell_of :: "http \<Rightarrow> nat option \<Rightarrow> nat option" where
  "cell_of S x =
     (case x of
        None \<Rightarrow> m_cell (main_pc S)
      | Some t \<Rightarrow> if t < length (threads S) then t_cell (pc (threads S ! t)) else None)"

lemma cell_of_main: "main_pc S' = p \<Longrightarrow> threads S' = threads S \<Longrightarrow> cell_of S' = (cell_of S)(None := m_cell p)"
  by (auto simp: cell_of_def fun_eq_iff split: option.splits)

lemma cell_of_spawn:
  "main_pc S' = p \<Longrightarrow> threads S' = threads S @ [th] \<Longrightarrow>
     cell_of S' = (cell_of S)(None := m_cell p, Some (length (threads S)) := t_cell (pc th))"
  by (auto simp: cell_of_def fun_eq_iff nth_append split: option.splits)

lemma cell_of_set_pc: "t < length (threads S) \<Longrightarrow> cell_of (set_pc t p S) = (cell_of S)(Some t := t_cell p)"
  by (auto simp: cell_of_def set_pc_def fun_eq_iff nth_list_update split: option.splits)

lemma cell_of_cong: "main_pc S' = main_pc S \<Longrightarrow> threads S' = threads S \<Longrightarrow> cell_of S' = cell_of S"
  by (auto simp: cell_of_def fun_eq_iff split: option.splits)

subsection \<open>The invariant\<close>

definition answered :: "(string \<Rightarrow> opened) \<Rightarrow> (nat \<Rightarrow> nat) \<Rightarrow> (nat \<Rightarrow> string option) \<Rightarrow> http \<Rightarrow> nat \<Rightarrow> bool" where
  "answered fs chunk req S n \<longleftrightarrow>
     (\<exists>ok g r. handler fs chunk ok g (req n) = Inr r \<and> replies S n = reply_list r)"

text \<open>What holds of one thread: its descriptor is its connection's, and how far the answer is.\<close>

fun thread_inv ::
  "(string \<Rightarrow> opened) \<Rightarrow> (nat \<Rightarrow> nat) \<Rightarrow> (nat \<Rightarrow> string option) \<Rightarrow> http \<Rightarrow> nat \<Rightarrow> thread_pc \<Rightarrow> bool" where
  "thread_inv fs chunk req S n (TStart a) \<longleftrightarrow>
     replies S n = [] \<and> (\<exists>fd. cells S a = Holds fd \<and> fdtab S fd = Some n)"
| "thread_inv fs chunk req S n (TLoaded a fd) \<longleftrightarrow> replies S n = [] \<and> fdtab S fd = Some n"
| "thread_inv fs chunk req S n (TRun fd) \<longleftrightarrow> replies S n = [] \<and> fdtab S fd = Some n"
| "thread_inv fs chunk req S n (TRecv fd g) \<longleftrightarrow> replies S n = [] \<and> fdtab S fd = Some n"
| "thread_inv fs chunk req S n (TSend fd r) \<longleftrightarrow>
     replies S n = [] \<and> fdtab S fd = Some n \<and> (\<exists>g. handler fs chunk True g (req n) = Inr r)"
| "thread_inv fs chunk req S n (TClose fd) \<longleftrightarrow> answered fs chunk req S n \<and> fdtab S fd = Some n"
| "thread_inv fs chunk req S n TDone \<longleftrightarrow> answered fs chunk req S n \<and> (\<forall>fd. fdtab S fd \<noteq> Some n)"

lemma thread_inv_cong:
  assumes "thread_inv fs chunk req S n p" and "replies S' n = replies S n"
    and "\<And>fd. fdtab S' fd = Some n \<longleftrightarrow> fdtab S fd = Some n" and "\<And>a. t_cell p = Some a \<Longrightarrow> cells S' a = cells S a"
  shows "thread_inv fs chunk req S' n p"
  using assms by (cases p) (auto simp: answered_def)

definition main_inv :: "http \<Rightarrow> bool" where
  "main_inv S \<longleftrightarrow>
     (\<forall>a. main_pc S = AtCreate a \<longrightarrow>
        (\<exists>fd. 0 < nconn S \<and> cells S a = Holds fd \<and> fdtab S fd = Some (nconn S - 1) \<and> replies S (nconn S - 1) = []))"

definition threads_inv :: "(string \<Rightarrow> opened) \<Rightarrow> (nat \<Rightarrow> nat) \<Rightarrow> (nat \<Rightarrow> string option) \<Rightarrow> http \<Rightarrow> bool" where
  "threads_inv fs chunk req S \<longleftrightarrow>
     (\<forall>t < length (threads S). thread_inv fs chunk req S (for_conn (threads S ! t)) (pc (threads S ! t)))"

text \<open>The connections accepted so far: with \<open>main\<close>, with a thread, or dropped.\<close>

definition m_conn :: "http \<Rightarrow> nat list" where
  "m_conn S = (case main_pc S of AtCreate a \<Rightarrow> [nconn S - 1] | _ \<Rightarrow> [])"

definition all_conns :: "http \<Rightarrow> nat list" where
  "all_conns S = m_conn S @ map for_conn (threads S) @ dropped S"

definition conns_inv :: "http \<Rightarrow> bool" where
  "conns_inv S \<longleftrightarrow>
     distinct (all_conns S) \<and> set (all_conns S) = {..<nconn S} \<and>
     (\<forall>fd fd' n. fdtab S fd = Some n \<and> fdtab S fd' = Some n \<longrightarrow> fd = fd') \<and>
     (\<forall>fd n. fdtab S fd = Some n \<longrightarrow> n < nconn S) \<and>
     (\<forall>n \<in> set (dropped S). replies S n = [] \<and> (\<forall>fd. fdtab S fd \<noteq> Some n)) \<and>
     (\<forall>n. nconn S \<le> n \<longrightarrow> replies S n = [])"

definition fatal_inv :: "(string \<Rightarrow> opened) \<Rightarrow> (nat \<Rightarrow> nat) \<Rightarrow> (nat \<Rightarrow> string option) \<Rightarrow> http \<Rightarrow> bool" where
  "fatal_inv fs chunk req S \<longleftrightarrow>
     \<not> bad_fd S \<and> (\<forall>u. fatal S = Some u \<longrightarrow> (\<exists>n g. n < nconn S \<and> handler fs chunk True g (req n) = Inl u))"

definition http_inv :: "(string \<Rightarrow> opened) \<Rightarrow> (nat \<Rightarrow> nat) \<Rightarrow> (nat \<Rightarrow> string option) \<Rightarrow> http \<Rightarrow> bool" where
  "http_inv fs chunk req S \<longleftrightarrow>
     own_inv (cell_of S) (cells S) (next_cell S) \<and> main_inv S \<and> threads_inv fs chunk req S \<and> conns_inv S \<and>
     fatal_inv fs chunk req S"

lemma http_inv_start: "http_inv fs chunk req (http_start es)"
  by (auto simp: http_inv_def http_start_def own_inv_def cell_of_def main_inv_def threads_inv_def conns_inv_def
      fatal_inv_def all_conns_def m_conn_def split: option.splits)

lemma http_sel [simp]:
  "main_pc (emit es S) = main_pc S" "cells (emit es S) = cells S" "next_cell (emit es S) = next_cell S"
  "threads (emit es S) = threads S" "fdtab (emit es S) = fdtab S" "nconn (emit es S) = nconn S"
  "replies (emit es S) = replies S" "dropped (emit es S) = dropped S" "bad_fd (emit es S) = bad_fd S"
  "fatal (emit es S) = fatal S" "keep_running (emit es S) = keep_running S"
  "main_pc (set_pc t p S) = main_pc S" "cells (set_pc t p S) = cells S" "next_cell (set_pc t p S) = next_cell S"
  "fdtab (set_pc t p S) = fdtab S" "nconn (set_pc t p S) = nconn S" "replies (set_pc t p S) = replies S"
  "dropped (set_pc t p S) = dropped S" "bad_fd (set_pc t p S) = bad_fd S" "fatal (set_pc t p S) = fatal S"
  "length (threads (set_pc t p S)) = length (threads S)"
  by (simp_all add: emit_def set_pc_def)

lemma for_conn_set_pc [simp]: "map for_conn (threads (set_pc t p S)) = map for_conn (threads S)"
  by (cases "t < length (threads S)") (simp_all add: set_pc_def map_update list_update_same_conv list_update_beyond)

subsection \<open>Steps of a thread\<close>

lemma conns_distinct:
  assumes "conns_inv S" and "t < length (threads S)"
  shows "u < length (threads S) \<Longrightarrow> u \<noteq> t \<Longrightarrow> for_conn (threads S ! u) \<noteq> for_conn (threads S ! t)"
    and "for_conn (threads S ! t) \<notin> set (dropped S)" and "for_conn (threads S ! t) < nconn S"
    and "main_pc S = AtCreate a \<Longrightarrow> for_conn (threads S ! t) \<noteq> nconn S - 1"
proof -
  have d: "distinct (m_conn S @ map for_conn (threads S) @ dropped S)"
    and all: "set (all_conns S) = {..<nconn S}" using assms(1) by (simp_all add: conns_inv_def all_conns_def)
  have n: "for_conn (threads S ! t) \<in> set (map for_conn (threads S))" using assms(2) by simp
  then show "for_conn (threads S ! t) \<notin> set (dropped S)" using d by auto
  from n all show "for_conn (threads S ! t) < nconn S" by (auto simp: all_conns_def)
  show "main_pc S = AtCreate a \<Longrightarrow> for_conn (threads S ! t) \<noteq> nconn S - 1"
    using n d by (auto simp: m_conn_def)
  have "distinct (map for_conn (threads S))" using d by simp
  then show "u < length (threads S) \<Longrightarrow> u \<noteq> t \<Longrightarrow> for_conn (threads S ! u) \<noteq> for_conn (threads S ! t)"
    using assms(2) by (metis length_map nth_eq_iff_index_eq nth_map)
qed

lemma main_inv_cong:
  assumes "main_inv S" and "main_pc S' = main_pc S" and "nconn S' = nconn S"
    and "\<And>a. main_pc S = AtCreate a \<Longrightarrow> cells S' a = cells S a \<and> replies S' (nconn S - 1) = replies S (nconn S - 1) \<and>
      (\<forall>fd. fdtab S fd = Some (nconn S - 1) \<longrightarrow> fdtab S' fd = Some (nconn S - 1))"
  shows "main_inv S'"
  unfolding main_inv_def
proof (intro allI impI)
  fix a assume "main_pc S' = AtCreate a"
  then have "main_pc S = AtCreate a" using assms(2) by simp
  with assms(1) assms(4) [OF this] show "\<exists>fd. 0 < nconn S' \<and> cells S' a = Holds fd \<and> fdtab S' fd = Some (nconn S' - 1) \<and>
      replies S' (nconn S' - 1) = []"
    by (auto simp: main_inv_def assms(3))
qed

lemma threads_inv_set_pc:
  assumes ths: "threads_inv fs chunk req S" and t: "t < length (threads S)" and same: "threads S' = threads S"
    and mine: "thread_inv fs chunk req S' (for_conn (threads S ! t)) p"
    and others: "\<And>u. u < length (threads S) \<Longrightarrow> u \<noteq> t \<Longrightarrow>
      replies S' (for_conn (threads S ! u)) = replies S (for_conn (threads S ! u)) \<and>
      (\<forall>fd. fdtab S' fd = Some (for_conn (threads S ! u)) \<longleftrightarrow> fdtab S fd = Some (for_conn (threads S ! u))) \<and>
      (\<forall>a. t_cell (pc (threads S ! u)) = Some a \<longrightarrow> cells S' a = cells S a)"
  shows "threads_inv fs chunk req (set_pc t p S')"
proof -
  have "thread_inv fs chunk req (set_pc t p S') (for_conn (threads S ! u)) (pc (threads S ! u))"
    if "u < length (threads S)" "u \<noteq> t" for u
  proof (rule thread_inv_cong)
    show "thread_inv fs chunk req S (for_conn (threads S ! u)) (pc (threads S ! u))"
      using ths that(1) by (simp add: threads_inv_def)
  qed (use others [OF that] in simp_all)
  moreover have "thread_inv fs chunk req (set_pc t p S') (for_conn (threads S ! t)) p"
    by (rule thread_inv_cong [OF mine]) simp_all
  ultimately show ?thesis
    using t by (auto simp: threads_inv_def set_pc_def same nth_list_update)
qed

text \<open>
  Thread \<open>t\<close> moves to \<open>p\<close>, and what else changes concerns its own connection, descriptor and cell.
\<close>

lemma http_inv_set_pc:
  assumes inv: "http_inv fs chunk req S" and t: "t < length (threads S)"
    and same: "main_pc S' = main_pc S" "threads S' = threads S" "nconn S' = nconn S" "dropped S' = dropped S"
    and own: "own_inv ((cell_of S)(Some t := t_cell p)) (cells S') (next_cell S')"
    and mine: "thread_inv fs chunk req S' (for_conn (threads S ! t)) p"
    and rep: "\<And>m. m \<noteq> for_conn (threads S ! t) \<Longrightarrow> replies S' m = replies S m"
    and fds: "\<And>fd m. m \<noteq> for_conn (threads S ! t) \<Longrightarrow> fdtab S' fd = Some m \<longleftrightarrow> fdtab S fd = Some m"
      "\<And>fd. fdtab S' fd = Some (for_conn (threads S ! t)) \<Longrightarrow> fdtab S fd = Some (for_conn (threads S ! t))"
    and cls: "\<And>a. cell_of S (Some t) \<noteq> Some a \<Longrightarrow> cells S' a = cells S a"
    and fatal: "fatal_inv fs chunk req S'"
  shows "http_inv fs chunk req (set_pc t p S')"
proof -
  have own0: "own_inv (cell_of S) (cells S) (next_cell S)" and conns: "conns_inv S"
    and ths: "threads_inv fs chunk req S" and main: "main_inv S" using inv by (simp_all add: http_inv_def)
  note dist = conns_distinct [OF conns t]
  have other: "cells S' a = cells S a" if "cell_of S x = Some a" "x \<noteq> Some t" for a x
    using that own_unique [OF own0 that(1), of "Some t"] by (intro cls) auto
  have "cell_of (set_pc t p S') = (cell_of S)(Some t := t_cell p)"
    using t cell_of_set_pc [of t S' p] cell_of_cong [of S' S] same by simp
  with own have o: "own_inv (cell_of (set_pc t p S')) (cells S') (next_cell S')" by simp
  have m: "main_inv (set_pc t p S')"
  proof (rule main_inv_cong [OF main])
    fix a assume a: "main_pc S = AtCreate a"
    then have "cells S' a = cells S a" by (intro other [of None]) (simp_all add: cell_of_def)
    with a rep fds(1) dist(4)
    show "cells (set_pc t p S') a = cells S a \<and> replies (set_pc t p S') (nconn S - 1) = replies S (nconn S - 1) \<and>
        (\<forall>fd. fdtab S fd = Some (nconn S - 1) \<longrightarrow> fdtab (set_pc t p S') fd = Some (nconn S - 1))"
      by simp
  qed (simp_all add: same)
  have th: "threads_inv fs chunk req (set_pc t p S')"
  proof (rule threads_inv_set_pc [OF ths t same(2) mine], intro conjI allI impI)
    fix u a assume u: "u < length (threads S)" "u \<noteq> t"
    show "cells S' a = cells S a" if "t_cell (pc (threads S ! u)) = Some a"
      using other [of "Some u" a] that u by (simp add: cell_of_def)
  qed (use rep fds(1) dist(1) in simp_all)
  have "all_conns (set_pc t p S') = all_conns S"
    by (simp add: all_conns_def m_conn_def same split: main_pc.split)
  then have "conns_inv (set_pc t p S')"
    using conns dist(2,3) fds rep unfolding conns_inv_def by (simp add: same) (metis leD)
  with o m th fatal show ?thesis by (simp add: http_inv_def fatal_inv_def)
qed

text \<open>The log, the flag and the fatal outcome do not matter to the rest of the invariant.\<close>

lemma http_inv_cong:
  assumes inv: "http_inv fs chunk req S" and same: "main_pc S' = main_pc S" "threads S' = threads S" "nconn S' = nconn S"
    "dropped S' = dropped S" "cells S' = cells S" "next_cell S' = next_cell S" "fdtab S' = fdtab S" "replies S' = replies S"
    and fatal: "fatal_inv fs chunk req S'"
  shows "http_inv fs chunk req S'"
proof -
  have "all_conns S' = all_conns S" by (simp add: all_conns_def m_conn_def same split: main_pc.split)
  moreover have "thread_inv fs chunk req S' n p = thread_inv fs chunk req S n p" for n p
    using thread_inv_cong [of fs chunk req S n p S'] thread_inv_cong [of fs chunk req S' n p S] same by auto
  ultimately show ?thesis
    using inv fatal cell_of_cong [of S' S] same
    by (simp add: http_inv_def main_inv_def threads_inv_def conns_inv_def)
qed

lemma set_pc_commute:
  "set_pc t p S\<lparr>cells := c\<rparr> = set_pc t p (S\<lparr>cells := c\<rparr>)"
  "set_pc t p S\<lparr>fdtab := f\<rparr> = set_pc t p (S\<lparr>fdtab := f\<rparr>)"
  "emit es (set_pc t p S) = set_pc t p (emit es S)"
  by (simp_all add: set_pc_def emit_def)

text \<open>The facts about thread \<open>t\<close> that each of its steps starts from.\<close>

lemma http_inv_threadD:
  assumes "http_inv fs chunk req S" and "t < length (threads S)"
  shows "own_inv (cell_of S) (cells S) (next_cell S)" and "fatal_inv fs chunk req S" and "conns_inv S"
    and "thread_inv fs chunk req S (for_conn (threads S ! t)) (pc (threads S ! t))"
    and "cell_of S (Some t) = t_cell (pc (threads S ! t))"
    and "c = t_cell (pc (threads S ! t)) \<Longrightarrow> own_inv ((cell_of S)(Some t := c)) (cells S) (next_cell S)"
proof -
  show own: "own_inv (cell_of S) (cells S) (next_cell S)" and "fatal_inv fs chunk req S" and "conns_inv S"
    using assms(1) by (simp_all add: http_inv_def)
  show "thread_inv fs chunk req S (for_conn (threads S ! t)) (pc (threads S ! t))"
    using assms by (simp add: http_inv_def threads_inv_def)
  show cell: "cell_of S (Some t) = t_cell (pc (threads S ! t))" using assms(2) by (simp add: cell_of_def)
  with own show "c = t_cell (pc (threads S ! t)) \<Longrightarrow> own_inv ((cell_of S)(Some t := c)) (cells S) (next_cell S)"
    by (simp add: fun_upd_idem)
qed

lemma http_inv_load:
  assumes inv: "http_inv fs chunk req S" and t: "t < length (threads S)" and pc: "pc (threads S ! t) = TStart a"
  shows "http_inv fs chunk req (with_cell a (\<lambda>fd. set_pc t (TLoaded a fd)) S)"
proof -
  note facts = http_inv_threadD [OF inv t]
  obtain fd where fd: "cells S a = Holds fd" "fdtab S fd = Some (for_conn (threads S ! t))"
    "replies S (for_conn (threads S ! t)) = []"
    using facts(4) pc by auto
  have "http_inv fs chunk req (set_pc t (TLoaded a fd) S)"
    by (rule http_inv_set_pc [OF inv t refl refl refl refl facts(6)]) (use pc fd facts(2) in simp_all)
  with fd show ?thesis by (simp add: with_cell_def)
qed

lemma http_inv_free_arg:
  assumes inv: "http_inv fs chunk req S" and t: "t < length (threads S)" and pc: "pc (threads S ! t) = TLoaded a fd"
  shows "http_inv fs chunk req (free_cell a (set_pc t (TRun fd) S))"
proof -
  note facts = http_inv_threadD [OF inv t]
  have a: "cell_of S (Some t) = Some a" using facts(5) pc by simp
  then have "cells S a \<noteq> Free" using own_live [OF facts(1)] by blast
  moreover have "http_inv fs chunk req (set_pc t (TRun fd) (S\<lparr>cells := (cells S)(a := Free)\<rparr>))"
    by (rule http_inv_set_pc [OF inv t])
      (use pc a own_free [OF facts(1) a] facts(2,4) in \<open>simp_all add: fatal_inv_def\<close>)
  ultimately show ?thesis by (simp add: free_cell_def set_pc_commute)
qed

lemma http_inv_run:
  assumes inv: "http_inv fs chunk req S" and t: "t < length (threads S)" and pc: "pc (threads S ! t) = TRun fd"
  shows "http_inv fs chunk req (set_pc t (TRecv fd garbage) S)" and "http_inv fs chunk req (set_pc t (TClose fd) S)"
proof -
  note facts = http_inv_threadD [OF inv t]
  have "answered fs chunk req S (for_conn (threads S ! t))"
    using facts(4) pc by (auto simp: answered_def handler_def reply_list_def intro!: exI [of _ False])
  then show "http_inv fs chunk req (set_pc t (TRecv fd garbage) S)" "http_inv fs chunk req (set_pc t (TClose fd) S)"
    by (auto intro!: http_inv_set_pc [OF inv t refl refl refl refl facts(6)]) (use pc facts in simp_all)
qed

lemma http_inv_recv:
  assumes inv: "http_inv fs chunk req S" and t: "t < length (threads S)" and pc: "pc (threads S ! t) = TRecv fd g"
  shows "fdtab S fd = Some (for_conn (threads S ! t))"
    and "handler fs chunk True g (req (for_conn (threads S ! t))) = Inl u \<Longrightarrow> http_inv fs chunk req (S\<lparr>fatal := Some u\<rparr>)"
    and "handler fs chunk True g (req (for_conn (threads S ! t))) = Inr r \<Longrightarrow> http_inv fs chunk req (set_pc t (TSend fd r) S)"
proof -
  note facts = http_inv_threadD [OF inv t]
  show n: "fdtab S fd = Some (for_conn (threads S ! t))" using facts(4) pc by simp
  show "http_inv fs chunk req (S\<lparr>fatal := Some u\<rparr>)"
    if "handler fs chunk True g (req (for_conn (threads S ! t))) = Inl u"
    using that facts(2) conns_distinct(3) [OF facts(3) t]
    by (intro http_inv_cong [OF inv]) (auto simp: fatal_inv_def)
  show "http_inv fs chunk req (set_pc t (TSend fd r) S)"
    if "handler fs chunk True g (req (for_conn (threads S ! t))) = Inr r"
    by (intro http_inv_set_pc [OF inv t refl refl refl refl facts(6)]) (use pc that facts in auto)
qed

lemma http_inv_send:
  assumes inv: "http_inv fs chunk req S" and t: "t < length (threads S)" and pc: "pc (threads S ! t) = TSend fd r"
  defines "n \<equiv> for_conn (threads S ! t)"
  shows "fdtab S fd = Some n"
    and "http_inv fs chunk req (set_pc t (TClose fd) (S\<lparr>replies := (replies S)(n := replies S n @ reply_list r)\<rparr>))"
proof -
  note facts = http_inv_threadD [OF inv t]
  obtain g where n: "fdtab S fd = Some n" "replies S n = []" "handler fs chunk True g (req n) = Inr r"
    using facts(4) pc by (auto simp: n_def)
  then show "fdtab S fd = Some n" by simp
  have "answered fs chunk req (S\<lparr>replies := (replies S)(n := replies S n @ reply_list r)\<rparr>) n"
    using n by (auto simp: answered_def)
  then show "http_inv fs chunk req (set_pc t (TClose fd) (S\<lparr>replies := (replies S)(n := replies S n @ reply_list r)\<rparr>))"
    by (intro http_inv_set_pc [OF inv t]) (use pc n facts in \<open>simp_all add: fatal_inv_def n_def\<close>)
qed

lemma http_inv_close:
  assumes inv: "http_inv fs chunk req S" and t: "t < length (threads S)" and pc: "pc (threads S ! t) = TClose fd"
  shows "http_inv fs chunk req (close_fd fd (set_pc t TDone S))"
proof -
  let ?n = "for_conn (threads S ! t)" and ?S' = "emit [HClose fd] (S\<lparr>fdtab := (fdtab S)(fd := None)\<rparr>)"
  note facts = http_inv_threadD [OF inv t]
  have n: "fdtab S fd = Some ?n" "answered fs chunk req S ?n" using facts(4) pc by simp_all
  have "fd' = fd" if "fdtab S fd' = Some ?n" for fd' using that n(1) facts(3) by (auto simp: conns_inv_def)
  then have "\<forall>fd'. fdtab ?S' fd' \<noteq> Some ?n" by auto
  moreover have "answered fs chunk req ?S' ?n" using n(2) by (simp add: answered_def)
  ultimately have "http_inv fs chunk req (set_pc t TDone ?S')"
    by (intro http_inv_set_pc [OF inv t]) (use pc n facts in \<open>auto simp: fatal_inv_def\<close>)
  with n show ?thesis by (simp add: close_fd_def set_pc_commute)
qed

lemma http_inv_thread:
  assumes "http_inv fs chunk req S" and "t < length (threads S)"
  shows "http_inv fs chunk req (thread_step fs chunk req malloc_ok garbage t S)"
  using assms http_inv_recv [OF assms] http_inv_send [OF assms]
  by (cases "pc (threads S ! t)")
    (auto simp: thread_step_def http_inv_load http_inv_free_arg http_inv_run http_inv_close split: sum.split)

subsection \<open>Steps of main\<close>

text \<open>A step of \<open>main\<close> that leaves the threads and what is theirs as it is.\<close>

lemma http_inv_main:
  assumes inv: "http_inv fs chunk req S" and same: "threads S' = threads S"
    and own: "own_inv ((cell_of S)(None := m_cell (main_pc S'))) (cells S') (next_cell S')"
    and parts: "main_inv S'" "conns_inv S'" "fatal_inv fs chunk req S'"
    and frame: "\<And>th. th \<in> set (threads S) \<Longrightarrow> replies S' (for_conn th) = replies S (for_conn th) \<and>
        (\<forall>fd. fdtab S' fd = Some (for_conn th) \<longleftrightarrow> fdtab S fd = Some (for_conn th))"
    and cls: "\<And>t a. cell_of S (Some t) = Some a \<Longrightarrow> cells S' a = cells S a"
  shows "http_inv fs chunk req S'"
proof -
  have "thread_inv fs chunk req S' (for_conn (threads S ! t)) (pc (threads S ! t))" if "t < length (threads S)" for t
  proof (rule thread_inv_cong)
    show "thread_inv fs chunk req S (for_conn (threads S ! t)) (pc (threads S ! t))"
      using inv that by (simp add: http_inv_def threads_inv_def)
    show "cells S' a = cells S a" if "t_cell (pc (threads S ! t)) = Some a" for a
      using cls [of t a] that \<open>t < _\<close> by (simp add: cell_of_def)
  qed (use frame [of "threads S ! t"] that in auto)
  then show ?thesis
    using own parts same cell_of_main [of S' "main_pc S'" S] by (simp add: http_inv_def threads_inv_def)
qed

lemma m_conn_None: "m_cell (main_pc S) = None \<Longrightarrow> m_conn S = []"
  by (cases "main_pc S") (simp_all add: m_conn_def)

lemma http_inv_goto:
  assumes inv: "http_inv fs chunk req S" and pc: "m_cell (main_pc S) = None" "m_cell p = None"
  shows "http_inv fs chunk req (emit es (S\<lparr>main_pc := p\<rparr>))"
proof (rule http_inv_main [OF inv])
  have "cell_of S None = None" using pc(1) by (simp add: cell_of_def)
  then show "own_inv ((cell_of S)(None := m_cell (main_pc (emit es (S\<lparr>main_pc := p\<rparr>)))))
      (cells (emit es (S\<lparr>main_pc := p\<rparr>))) (next_cell (emit es (S\<lparr>main_pc := p\<rparr>)))"
    using inv pc(2) by (simp add: http_inv_def fun_upd_idem)
  show "main_inv (emit es (S\<lparr>main_pc := p\<rparr>))" using pc(2) by (auto simp: main_inv_def)
  have "all_conns (emit es (S\<lparr>main_pc := p\<rparr>)) = all_conns S"
    using pc m_conn_None [of S] m_conn_None [of "emit es (S\<lparr>main_pc := p\<rparr>)"] by (simp add: all_conns_def)
  then show "conns_inv (emit es (S\<lparr>main_pc := p\<rparr>))" using inv by (simp add: http_inv_def conns_inv_def)
qed (use inv in \<open>simp_all add: http_inv_def fatal_inv_def\<close>)

lemma http_inv_alloc:
  assumes inv: "http_inv fs chunk req S" and pc: "main_pc S = AtHead"
  shows "http_inv fs chunk req (S\<lparr>main_pc := AtAccept (next_cell S), cells := (cells S)(next_cell S := Uninit),
    next_cell := next_cell S + 1\<rparr>)" (is "http_inv fs chunk req ?S'")
proof (rule http_inv_main [OF inv])
  have own: "own_inv (cell_of S) (cells S) (next_cell S)" using inv by (simp add: http_inv_def)
  then show "own_inv ((cell_of S)(None := m_cell (main_pc ?S'))) (cells ?S') (next_cell ?S')"
    using own_alloc [OF own, of None] pc by (simp add: cell_of_def)
  show "cells ?S' a = cells S a" if "cell_of S (Some t) = Some a" for t a
  proof -
    have "a < next_cell S" using own that unfolding own_inv_def by blast
    then show ?thesis by simp
  qed
  have "all_conns ?S' = all_conns S" using pc by (simp add: all_conns_def m_conn_def)
  then show "conns_inv ?S'" using inv by (simp add: http_inv_def conns_inv_def)
qed (use inv in \<open>simp_all add: http_inv_def fatal_inv_def main_inv_def\<close>)

lemma http_inv_accept:
  assumes inv: "http_inv fs chunk req S" and pc: "main_pc S = AtAccept a" and fd: "fdtab S fd = None"
  shows "http_inv fs chunk req (S\<lparr>main_pc := AtCreate a, cells := (cells S)(a := Holds fd),
    fdtab := (fdtab S)(fd \<mapsto> nconn S), nconn := Suc (nconn S)\<rparr>)" (is "http_inv fs chunk req ?S'")
proof (rule http_inv_main [OF inv])
  have own: "own_inv (cell_of S) (cells S) (next_cell S)" and conns: "conns_inv S" using inv by (simp_all add: http_inv_def)
  have a: "cell_of S None = Some a" using pc by (simp add: cell_of_def)
  then show "own_inv ((cell_of S)(None := m_cell (main_pc ?S'))) (cells ?S') (next_cell ?S')"
    using own_write [OF own a] by (simp add: fun_upd_idem)
  show "cells ?S' b = cells S b" if "cell_of S (Some t) = Some b" for t b
    using that own_unique [OF own a, of "Some t"] by auto
  have new: "fdtab S fd' \<noteq> Some (nconn S)" for fd' using conns by (auto simp: conns_inv_def)
  have "nconn S \<notin> set (all_conns S)" using conns by (simp add: conns_inv_def)
  then have "nconn S \<notin> set (dropped S)" by (simp add: all_conns_def)
  moreover have "all_conns ?S' = nconn S # all_conns S" using pc by (simp add: all_conns_def m_conn_def)
  ultimately show "conns_inv ?S'" using conns fd new unfolding conns_inv_def by (auto simp: less_Suc_eq split: if_splits)
  show "main_inv ?S'" using conns by (auto simp: main_inv_def conns_inv_def)
  show "replies ?S' (for_conn th) = replies S (for_conn th) \<and>
      (\<forall>fd. fdtab ?S' fd = Some (for_conn th) \<longleftrightarrow> fdtab S fd = Some (for_conn th))" if th: "th \<in> set (threads S)" for th
  proof -
    obtain t where "t < length (threads S)" "th = threads S ! t" using th by (auto simp: in_set_conv_nth)
    then have "for_conn th < nconn S" using conns_distinct(3) [OF conns] by blast
    then show ?thesis using fd by auto
  qed
  show "fatal_inv fs chunk req ?S'"
    using inv unfolding http_inv_def fatal_inv_def by simp (metis less_SucI)
qed simp

lemma http_inv_accept_fails:
  assumes inv: "http_inv fs chunk req S" and pc: "main_pc S = AtAccept a" "m_cell p = None"
  shows "http_inv fs chunk req (free_cell a (emit es (S\<lparr>main_pc := p\<rparr>)))" (is "http_inv fs chunk req ?S'")
proof (rule http_inv_main [OF inv])
  have own: "own_inv (cell_of S) (cells S) (next_cell S)" using inv by (simp add: http_inv_def)
  have a: "cell_of S None = Some a" using pc by (simp add: cell_of_def)
  then have "cells S a \<noteq> Free" using own_live [OF own] by blast
  then have S': "?S' = emit es (S\<lparr>main_pc := p, cells := (cells S)(a := Free)\<rparr>)" by (simp add: free_cell_def emit_def)
  show "own_inv ((cell_of S)(None := m_cell (main_pc ?S'))) (cells ?S') (next_cell ?S')"
    using own_free [OF own a] pc(2) unfolding S' by simp
  show "cells ?S' b = cells S b" if "cell_of S (Some t) = Some b" for t b
    using that own_unique [OF own a, of "Some t"] unfolding S' by auto
  have "m_conn S = []" "m_conn ?S' = []" using pc m_conn_None [of ?S'] unfolding S' by (simp_all add: m_conn_def)
  then have "all_conns ?S' = all_conns S" unfolding all_conns_def by (simp add: S')
  then show "conns_inv ?S'" using inv unfolding http_inv_def conns_inv_def by (simp add: S')
  show "main_inv ?S'" "threads ?S' = threads S" "fatal_inv fs chunk req ?S'"
    using inv pc(2) unfolding S' by (auto simp: main_inv_def http_inv_def fatal_inv_def)
  show "replies ?S' (for_conn th) = replies S (for_conn th) \<and>
      (\<forall>fd. fdtab ?S' fd = Some (for_conn th) \<longleftrightarrow> fdtab S fd = Some (for_conn th))" for th
    unfolding S' by simp
qed

text \<open>What \<open>main\<close> holds before \<open>pthread_create\<close>.\<close>

lemma http_inv_createD:
  assumes "http_inv fs chunk req S" and "main_pc S = AtCreate a"
  shows "\<exists>fd n. nconn S = Suc n \<and> cells S a = Holds fd \<and> fdtab S fd = Some n \<and> replies S n = [] \<and>
    n \<notin> for_conn ` set (threads S) \<and> n \<notin> set (dropped S) \<and> all_conns S = n # map for_conn (threads S) @ dropped S"
proof -
  obtain fd where fd: "0 < nconn S" "cells S a = Holds fd" "fdtab S fd = Some (nconn S - 1)" "replies S (nconn S - 1) = []"
    using assms by (auto simp: http_inv_def main_inv_def)
  moreover have "all_conns S = (nconn S - 1) # map for_conn (threads S) @ dropped S"
    using assms(2) by (simp add: all_conns_def m_conn_def)
  moreover have "distinct (all_conns S)" using assms(1) by (simp add: http_inv_def conns_inv_def)
  ultimately show ?thesis by (intro exI [of _ fd] exI [of _ "nconn S - 1"]) auto
qed

lemma http_inv_spawn:
  assumes inv: "http_inv fs chunk req S" and pc: "main_pc S = AtCreate a" and fd: "cells S a = Holds fd"
  shows "http_inv fs chunk req (emit es (S\<lparr>main_pc := AtHead,
    threads := threads S @ [\<lparr>pc = TStart a, for_conn = the (fdtab S fd)\<rparr>]\<rparr>))" (is "http_inv fs chunk req ?S'")
proof -
  have own: "own_inv (cell_of S) (cells S) (next_cell S)" and ths: "threads_inv fs chunk req S" and conns: "conns_inv S"
    using inv by (simp_all add: http_inv_def)
  obtain n where n: "nconn S = Suc n" "fdtab S fd = Some n" "replies S n = []" "n \<notin> for_conn ` set (threads S)"
    "n \<notin> set (dropped S)" "all_conns S = n # map for_conn (threads S) @ dropped S"
    using http_inv_createD [OF inv pc] fd by auto
  have a: "cell_of S None = Some a" "cell_of S (Some (length (threads S))) = None" using pc by (simp_all add: cell_of_def)
  have "cell_of ?S' = (cell_of S)(None := None, Some (length (threads S)) := Some a)"
    using cell_of_spawn [of ?S' AtHead S] by simp
  then have "own_inv (cell_of ?S') (cells ?S') (next_cell ?S')" using own_transfer [OF own a] by simp
  moreover have "threads_inv fs chunk req ?S'"
    unfolding threads_inv_def
  proof (intro allI impI)
    fix t assume t: "t < length (threads ?S')"
    show "thread_inv fs chunk req ?S' (for_conn (threads ?S' ! t)) (pc (threads ?S' ! t))"
    proof (cases "t < length (threads S)")
      case True
      then have "thread_inv fs chunk req S (for_conn (threads S ! t)) (pc (threads S ! t))"
        using ths by (simp add: threads_inv_def)
      with True show ?thesis by (simp add: nth_append) (erule thread_inv_cong; simp)
    next
      case False
      with t have "t = length (threads S)" by simp
      with n fd show ?thesis by simp
    qed
  qed
  moreover have "conns_inv ?S'"
    using conns n unfolding conns_inv_def by (auto simp: all_conns_def m_conn_def)
  moreover have "main_inv ?S'" "fatal_inv fs chunk req ?S'" using inv by (auto simp: main_inv_def http_inv_def fatal_inv_def)
  ultimately show ?thesis by (simp add: http_inv_def)
qed

lemma http_inv_create_fails:
  assumes inv: "http_inv fs chunk req S" and pc: "main_pc S = AtCreate a" and fd: "cells S a = Holds fd"
  shows "http_inv fs chunk req (free_cell a (close_fd fd (emit es
    (S\<lparr>main_pc := AtHead, dropped := the (fdtab S fd) # dropped S\<rparr>))))" (is "http_inv fs chunk req ?S'")
proof (rule http_inv_main [OF inv])
  have own: "own_inv (cell_of S) (cells S) (next_cell S)" and conns: "conns_inv S"
    using inv by (simp_all add: http_inv_def)
  obtain n where n: "nconn S = Suc n" "fdtab S fd = Some n" "replies S n = []" "n \<notin> for_conn ` set (threads S)"
    "n \<notin> set (dropped S)" "all_conns S = n # map for_conn (threads S) @ dropped S"
    using http_inv_createD [OF inv pc] fd by auto
  have a: "cell_of S None = Some a" using pc by (simp add: cell_of_def)
  have S': "?S' = emit (es @ [HClose fd]) (S\<lparr>main_pc := AtHead, dropped := n # dropped S,
      fdtab := (fdtab S)(fd := None), cells := (cells S)(a := Free)\<rparr>)"
    using n(2) fd by (simp add: free_cell_def close_fd_def emit_def)
  show "own_inv ((cell_of S)(None := m_cell (main_pc ?S'))) (cells ?S') (next_cell ?S')"
    using own_free [OF own a] unfolding S' by simp
  show "cells ?S' b = cells S b" if "cell_of S (Some t) = Some b" for t b
    using that own_unique [OF own a, of "Some t"] unfolding S' by auto
  show "conns_inv ?S'"
    using conns n unfolding conns_inv_def S' by (auto simp: all_conns_def m_conn_def split: if_splits)
  show "main_inv ?S'" "threads ?S' = threads S" "fatal_inv fs chunk req ?S'"
    using inv unfolding S' by (auto simp: main_inv_def http_inv_def fatal_inv_def)
  show "replies ?S' (for_conn th) = replies S (for_conn th) \<and>
      (\<forall>fd. fdtab ?S' fd = Some (for_conn th) \<longleftrightarrow> fdtab S fd = Some (for_conn th))" if "th \<in> set (threads S)" for th
    using that n unfolding S' by auto
qed

lemma http_inv_main_step:
  assumes inv: "http_inv fs chunk req S" and ok: "accept_ok rd S"
  shows "http_inv fs chunk req (main_step socket_fd rd S)"
proof (cases "main_pc S")
  case AtHead
  with inv show ?thesis
    using http_inv_goto [OF inv, of AtExit "[]"] http_inv_goto [OF inv, of AtExit] http_inv_alloc [OF inv]
    by (simp add: main_step_def emit_def)
next
  case (AtAccept a)
  with inv ok show ?thesis
    by (auto simp: main_step_def accept_ok_def intro: http_inv_accept http_inv_accept_fails split: accept_result.splits)
next
  case (AtCreate a)
  then obtain fd where "cells S a = Holds fd" using http_inv_createD [OF inv] by blast
  with AtCreate inv show ?thesis
    by (simp add: main_step_def with_cell_def http_inv_spawn http_inv_create_fails)
next
  case AtExit
  with inv show ?thesis using http_inv_goto [OF inv, of Exited] by (simp add: main_step_def)
qed (use inv in \<open>simp add: main_step_def\<close>)

text \<open>Undisturbed, the operations of \<open>main\<close> make up a turn of the accept loop as \<open>Http\<close> has it.\<close>

lemma main_steps_accept_turn:
  assumes "main_pc S = AtHead" and "keep_running S \<longleftrightarrow> \<not> stopping rd"
  shows "\<exists>k S'. S' = (main_step socket_fd rd ^^ k) S \<and>
    (accept_turn rd (hlog S) = Goes (hlog S') \<and> main_pc S' = AtHead \<or>
     accept_turn rd (hlog S) = Ends (hlog S') \<and> main_pc S' = AtExit)"
proof -
  define k :: nat where "k = (if stopping rd \<or> \<not> malloc_fd_ok rd then 1 else case accept_res rd of Accepted fd \<Rightarrow> 3 | _ \<Rightarrow> 2)"
  show ?thesis
    by (intro exI [of _ k] exI [of _ "(main_step socket_fd rd ^^ k) S"])
      (cases "accept_res rd"; use assms in \<open>auto simp: k_def numeral_3_eq_3 numeral_2_eq_2 accept_turn_def main_step_def
          with_cell_def free_cell_def close_fd_def emit_def\<close>)
qed

lemma http_inv_step: "http_step socket_fd fs chunk req S S' \<Longrightarrow> http_inv fs chunk req S \<Longrightarrow> http_inv fs chunk req S'"
proof (induction rule: http_step.induct)
  case (signal S)
  then show ?case
    by (intro http_inv_cong [OF signal.prems]) (auto simp: signal_handler_def http_inv_def fatal_inv_def)
qed (simp_all add: http_inv_main_step http_inv_thread)

subsection \<open>Schedules\<close>

datatype http_act = Main accept_round | Thread bool string nat | Signal

fun http_do ::
  "int \<Rightarrow> (string \<Rightarrow> opened) \<Rightarrow> (nat \<Rightarrow> nat) \<Rightarrow> (nat \<Rightarrow> string option) \<Rightarrow> http_act \<Rightarrow> http \<Rightarrow> http option" where
  "http_do socket_fd fs chunk req (Main rd) S =
     (if running S \<and> accept_ok rd S then Some (main_step socket_fd rd S) else None)"
| "http_do socket_fd fs chunk req (Thread ok g t) S =
     (if running S \<and> t < length (threads S) then Some (thread_step fs chunk req ok g t S) else None)"
| "http_do socket_fd fs chunk req Signal S = (if running S then Some (signal_handler S) else None)"

abbreviation http_schedule ::
  "int \<Rightarrow> (string \<Rightarrow> opened) \<Rightarrow> (nat \<Rightarrow> nat) \<Rightarrow> (nat \<Rightarrow> string option) \<Rightarrow> http_act list \<Rightarrow> http \<Rightarrow> http option" where
  "http_schedule socket_fd fs chunk req \<equiv> run_schedule (http_do socket_fd fs chunk req)"

lemma http_do_step: "http_do socket_fd fs chunk req a S = Some S' \<Longrightarrow> http_step socket_fd fs chunk req S S'"
  by (cases a) (auto split: if_splits intro: http_step.intros)

lemma http_step_do: "http_step socket_fd fs chunk req S S' \<Longrightarrow> \<exists>a. http_do socket_fd fs chunk req a S = Some S'"
proof (induction rule: http_step.induct)
  case (main S rd)
  then show ?case by (intro exI [of _ "Main rd"]) simp
next
  case (thread S t ok g)
  then show ?case by (intro exI [of _ "Thread ok g t"]) simp
next
  case (signal S)
  then show ?case by (intro exI [of _ Signal]) simp
qed

interpretation http_runs: scheduled "http_step socket_fd fs chunk req" "http_do socket_fd fs chunk req"
  "http_inv fs chunk req" for socket_fd fs chunk req
  by unfold_locales (simp_all add: http_do_step http_step_do http_inv_step)

text \<open>How many operations a thread still has before it.\<close>

fun stage :: "thread_pc \<Rightarrow> nat" where
  "stage (TStart a) = 6"
| "stage (TLoaded a fd) = 5"
| "stage (TRun fd) = 4"
| "stage (TRecv fd g) = 3"
| "stage (TSend fd r) = 2"
| "stage (TClose fd) = 1"
| "stage TDone = 0"

lemma stage_le: "stage p \<le> 6" and stage_0: "stage p = 0 \<longleftrightarrow> p = TDone"
  by (cases p; simp)+

fun own_steps :: "nat \<Rightarrow> http_act list \<Rightarrow> nat" where
  "own_steps t [] = 0"
| "own_steps t (Thread ok g u # as) = (if u = t then 1 else 0) + own_steps t as"
| "own_steps t (a # as) = own_steps t as"

lemma threads_set_pc: "t < length (threads S) \<Longrightarrow> threads (set_pc u p S) ! t = (if u = t then (threads S ! t)\<lparr>pc := p\<rparr> else threads S ! t)"
  by (simp add: set_pc_def nth_list_update)

lemma threads_close_fd [simp]: "threads (close_fd fd S) = threads S"
  and threads_free_cell [simp]: "threads (free_cell a S) = threads S"
  by (simp_all add: close_fd_def free_cell_def)

text \<open>A step of another agent leaves the thread where it is; its own brings it closer to the end.\<close>

lemma main_step_threads: "t < length (threads S) \<Longrightarrow> t < length (threads (main_step socket_fd rd S)) \<and>
    threads (main_step socket_fd rd S) ! t = threads S ! t"
  by (auto simp: main_step_def with_cell_def nth_append split: main_pc.split accept_result.split cell.split)

lemma thread_step_other:
  "t < length (threads S) \<Longrightarrow> t < length (threads (thread_step fs chunk req ok g u S)) \<and>
     (u \<noteq> t \<longrightarrow> threads (thread_step fs chunk req ok g u S) ! t = threads S ! t)"
  by (auto simp: thread_step_def with_cell_def threads_set_pc
      split: thread_pc.split cell.split option.split sum.split)

lemma thread_step_own:
  "t < length (threads S) \<Longrightarrow> fatal (thread_step fs chunk req ok g t S) = None \<Longrightarrow>
     stage (pc (threads (thread_step fs chunk req ok g t S) ! t)) \<le> stage (pc (threads S ! t)) - 1"
  by (cases "pc (threads S ! t)")
    (auto simp: thread_step_def with_cell_def threads_set_pc split: cell.splits option.splits sum.splits)

lemma http_do_stage:
  assumes "http_do socket_fd fs chunk req a S = Some S'" and "t < length (threads S)" and "fatal S' = None"
  shows "t < length (threads S') \<and> stage (pc (threads S' ! t)) \<le> stage (pc (threads S ! t)) - own_steps t [a]"
proof (cases a)
  case (Main rd)
  with assms show ?thesis using main_step_threads [of t S socket_fd rd] by (auto split: if_splits)
next
  case (Thread ok g u)
  with assms show ?thesis
    using thread_step_other [of t S fs chunk req ok g u] thread_step_own [of t S fs chunk req ok g]
    by (auto split: if_splits)
qed (use assms in \<open>auto simp: signal_handler_def split: if_splits\<close>)

lemma http_do_running: "http_do socket_fd fs chunk req a S = Some S' \<Longrightarrow> fatal S = None"
  by (cases a) (auto simp: running_def split: if_splits)

lemma own_steps_Cons: "own_steps t (a # as) = own_steps t [a] + own_steps t as"
  by (cases a) simp_all

lemma http_schedule_stage:
  "http_schedule socket_fd fs chunk req as S = Some S' \<Longrightarrow> t < length (threads S) \<Longrightarrow> fatal S' = None \<Longrightarrow>
     t < length (threads S') \<and> stage (pc (threads S' ! t)) \<le> stage (pc (threads S ! t)) - own_steps t as"
proof (induction as arbitrary: S)
  case (Cons a as)
  then obtain S1 where S1: "http_do socket_fd fs chunk req a S = Some S1" "http_schedule socket_fd fs chunk req as S1 = Some S'"
    by (auto split: option.splits)
  have "fatal S1 = None"
    using S1(2) Cons.prems(3) http_do_running [of socket_fd fs chunk req _ S1] by (cases as) (auto split: option.splits)
  then have "t < length (threads S1) \<and> stage (pc (threads S1 ! t)) \<le> stage (pc (threads S ! t)) - own_steps t [a]"
    using http_do_stage [OF S1(1) Cons.prems(2)] by blast
  with Cons.IH [OF S1(2) _ Cons.prems(3)] show ?case unfolding own_steps_Cons [of t a as] by auto
qed simp

subsection \<open>Properties\<close>


text \<open>Two requests at once, each step of the one followed by the same step of the other.\<close>

definition demo_fs :: "string \<Rightarrow> opened" where
  "demo_fs f = (if f = ''a.txt'' then Unreadable else NotFound)"

definition demo_req :: "nat \<Rightarrow> string option" where
  "demo_req n = Some (if n = 0 then ''GET /a.txt HTTP/1.1'' else ''GET /b HTTP/1.1'')"

definition demo_accept :: "int \<Rightarrow> http_act list" where
  "demo_accept fd = replicate 3 (Main \<lparr>stopping = False, malloc_fd_ok = True, accept_res = Accepted fd, thread_ok = True\<rparr>)"

definition demo_both :: "http_act list" where
  "demo_both = demo_accept 4 @ demo_accept 5 @ concat (replicate 6 [Thread True [NUL] 0, Thread True [NUL] 1])"






end
