(* ===== verification/Spec2Isabelle.thy ===== *)
theory Spec2Isabelle
  imports
    C_Prelude C_Bytes
    Cat Getopt Hexdump Readability
    Shell Posix_Fd Redirect Runner
    Greyscale
    Poll_Table Scheduler Chat_Room Tcp_Server Tcp_Room Net_Clients Chat_System Mtls_Server Mtls_Room Mtls_App
    Checksum Portscan Scan_System Sniffer Http Http_Threads
begin

text \<open>
  \<^bold>\<open>The repository.\<close>  \<^verbatim>\<open>src/\<close> holds a collection of C programs for Linux that do not call each other: three
  command line tools (\<^verbatim>\<open>src/tools\<close>), and under \<^verbatim>\<open>src/projects\<close> a bitmap filter, four programs about
  processes and descriptors, and six network programs.  This development models every C file of it.
  What the programs have in common is in shared theories: the C prelude, the bytes of packed
  structures, descriptor tables, \<open>poll\<close> loops, and the chat room that two of the servers implement.  Where
  programs or threads work together (the TCP server with its clients, the threads of the HTTP server,
  the scanner with its listener and the host it scans) a theory of its own composes their models.

  \<^bold>\<open>How C is modelled.\<close>  Bytes and fixed-width integers are words (\<open>u8\<close>, \<open>u16\<close>, \<open>u32\<close>), \<open>int\<close> is
  \<open>int\<close> with its conversions written out, C text is \<open>string\<close>.  A structure is a record, an enumeration a
  datatype.  A call of the operating system or of a library outside the repository (OpenSSL) is a
  parameter: what it answers is an argument of the function that makes it, so a theorem holds for
  every answer, and where it needs a condition on the answers the condition is a hypothesis.  What a
  function does outside its memory (text, datagrams, descriptors closed) is an event list, in order.
  Behaviour that C leaves undefined is a value: \<open>ub\<close> names its kind, \<open>'a cres\<close> is \<open>ub + 'a\<close>, and
  \<open>'a outcome\<close> adds \<open>exit\<close> and waiting forever.  Loops are recursive functions; those driven by their
  environment (the \<open>poll\<close>, capture and accept loops) are a function for one turn and \<open>run_turns\<close> over the
  list of what the environment answers in each turn, so that a statement about all lists covers every
  finite run; the loop of the shell takes a number of turns and is \<open>None\<close> when it has not ended by then, and
  its termination theorem says for which inputs a number is enough and which.  The other loops are
  structural or have a termination proof.  Threads, and programs joined by connections, are \<open>inductive\<close>
  step relations whose steps are the operations of the parts, with an executable scheduler beside each
  relation by which concrete runs are evaluated.

  \<^bold>\<open>Shared theories.\<close>
  \<^item> \<open>C_Prelude\<close>: the types above, character classes, C strings, \<open>strtol\<close>/\<open>atoi\<close>, \<open>printf\<close>'s integer
    conversions with their inverses.
  \<^item> \<open>C_Bytes\<close>: little-endian integers, network byte order, and the interface \<open>fixed_codec\<close> of a packed
    structure, interpreted for every structure the programs read or write as bytes (IP and TCP
    headers, pcap headers, bitmap headers and pixels).
  \<^item> \<open>Poll_Table\<close>: the \<open>pollfd\<close> array, \<open>poll\<close>, the search for a free slot, and the interfaces
    \<open>turn_machine\<close>, \<open>safe_turn_machine\<close> and \<open>endless_turn_machine\<close> of a loop with an invariant, interpreted for
    the two chat servers and the sniffer.
  \<^item> \<open>Chat_Room\<close>: the abstract specification of a chat server, a room whose members join, leave and are told
    what the operator says, as a transition system that is exact (a line reaches every member) or not;
    the interface \<open>room_server\<close> of a loop whose turns are actions of a room gives that its runs are runs of
    the room.
  \<^item> \<open>Scheduler\<close>: the interface \<open>scheduled\<close> of a system whose parts move in any order, with a step relation, an
    invariant, and executable actions; schedules compute exactly the states reached.  Interpreted for
    the chat and for the threads of the HTTP server.
  \<^item> \<open>Posix_Fd\<close>: descriptor tables; the interface \<open>fd_store\<close> (reading back what was stored, lowest free
    number) gives what redirecting a descriptor does.
  \<^item> \<open>Getopt\<close>: the part of \<open>getopt_long\<close> that hexdump uses.

  \<^bold>\<open>The programs, and what is proved.\<close>
  \<^item> \<open>Cat\<close> (\<^verbatim>\<open>tools/cat/main.c\<close>): the output is the concatenation of the files; every error path.
  \<^item> \<open>Hexdump\<close> (\<^verbatim>\<open>tools/hexdump/main.c\<close>): accepted options are within their bounds; the printed dump can be
    read back to the bytes dumped; its layout; the result of \<open>main\<close>.
  \<^item> \<open>Readability\<close> (\<^verbatim>\<open>tools/text-readability/main.c\<close>): what the counters hold for every text, with the
    effect of the uninitialised variable and of \<open>float\<close> saturation; the error of the index against the
    exact formula under rounding to nearest.
  \<^item> \<open>Shell\<close> (\<^verbatim>\<open>projects/ipc/mini-shell/main.c\<close>): \<open>readline\<close> and \<open>tokenize\<close> stay inside their growing
    buffers and return the line and its tokens; the built-ins; a turn of the loop, signals; the loop ends
    if and only if a line of the input is an \<open>exit\<close> command.
  \<^item> \<open>Redirect\<close> (\<^verbatim>\<open>projects/ipc/io-redirector/main.c\<close>, \<^verbatim>\<open>projects/ipc/mini-pipeline/main.c\<close>) and \<open>Runner\<close>
    (\<^verbatim>\<open>projects/ipc/parallel-runner/main.c\<close>): the descriptor tables of the commands started, no stray ends of
    pipes; every command is reported once, in the order of termination; the limits of the runner.
  \<^item> \<open>Greyscale\<close> (\<^verbatim>\<open>projects/graphics/greyscale-filter/main.c\<close>): the output file for every well-formed image, and
    that filtering twice is filtering once.
  \<^item> \<open>Tcp_Server\<close>, \<open>Tcp_Room\<close>, \<open>Net_Clients\<close>, \<open>Chat_System\<close> (\<^verbatim>\<open>projects/networking/tcp-suite\<close>, \<^verbatim>\<open>projects/networking/udp-messenger/main.c\<close>):
    every connected client stays in the polled range and gets every broadcast; a failed read is
    undefined behaviour; the server refines the exact room of 99 members (\<open>Tcp_Room\<close>); the client relays
    faithfully; server and clients together, over connections that are FIFO queues in both directions,
    deliver what was typed without loss, duplication or mixing, in every interleaving (\<open>Chat_System\<close>).
  \<^item> \<open>Mtls_Server\<close>, \<open>Mtls_Room\<close>, \<open>Mtls_App\<close> (\<^verbatim>\<open>projects/networking/mtls-chat\<close>): the server never hands a NULL or freed object
    to OpenSSL; when a disconnect takes other clients out of the polled range; the server refines a room
    of 100 members, an exact one only while every client is polled (\<open>Mtls_Room\<close>); failed handshakes, the TLS
    contexts, the client with its session callback.
  \<^item> \<open>Checksum\<close>, \<open>Portscan\<close>, \<open>Scan_System\<close> (\<^verbatim>\<open>projects/networking/port-scanner/main.c\<close>): the checksum routine is RFC 1071; the
    SYN packets are well formed and verify; the listener reports exactly the ports that answered; with a
    target that answers as RFC 793 says, a scan prints exactly the open ports of the range (\<open>Scan_System\<close>).
  \<^item> \<open>Sniffer\<close> (\<^verbatim>\<open>projects/networking/packet-sniffer/main.c\<close>): the capture file read back is the current window;
    interface flags are taken back; the bound of the interface table; a signal stops the loop, once
    \<open>recvfrom\<close> returns.
  \<^item> \<open>Http\<close>, \<open>Http_Threads\<close> (\<^verbatim>\<open>projects/networking/http-server/main.c\<close>): the response for every request of a file, decoding
    inverts percent encoding, the requests that are undefined behaviour; with \<open>main\<close>, the detached handler
    threads and the signal handler interleaved, every connection gets its own answer, argument cells
    and descriptors are neither leaked nor used after they are released, and every handler ends.

  \<^bold>\<open>Bounds.\<close>  The checksum theorem is for buffers up to 131072 bytes, the largest for which a 32-bit sum of
  16-bit words cannot overflow; the program uses 32.  Receive buffers, table sizes and record sizes
  are the constants of the programs.

  \<^bold>\<open>Not modelled.\<close>  The text of the system's error messages behind \<open>perror\<close>, delays and time-outs, the
  diagnostics \<open>getopt_long\<close> prints itself, \<open>SIGPIPE\<close>, and partial results of \<open>send\<close> and \<open>write\<close>.  A handler
  thread reads the file it serves in one step, so a file that changes meanwhile is not covered.  The
  shell scripts, the Python scraper and the build files are not C code.
\<close>

end
